theory Spec2Isabelle
  imports Complex_Main "HOL-Library.Multiset"
begin

section \<open>Python containers used by the review pipeline\<close>

text \<open>
  A Python \<open>dict\<close> keeps its keys unique and iterates in insertion order. It is modelled
  as an association list in insertion order; \<open>dict_set\<close> is the assignment
  \<open>d[k] = v\<close> (an existing key keeps its position and gets the new value, a new key is
  appended) and \<open>dict_of\<close> is the constructor \<open>dict(pairs)\<close>.
\<close>

fun dict_set :: "('k \<times> 'v) list \<Rightarrow> 'k \<Rightarrow> 'v \<Rightarrow> ('k \<times> 'v) list" where
  "dict_set [] k v = [(k, v)]"
| "dict_set ((k', v') # d) k v =
     (if k' = k then (k, v) # d else (k', v') # dict_set d k v)"

definition dict_of :: "('k \<times> 'v) list \<Rightarrow> ('k \<times> 'v) list" where
  "dict_of pairs = foldl (\<lambda>d kv. dict_set d (fst kv) (snd kv)) [] pairs"

text \<open>
  Python slices \<open>xs[:n]\<close> and \<open>xs[n:]\<close> for an integer \<open>n\<close>: a negative bound counts
  from the end of the list, and every bound is clipped to the list.
\<close>

definition py_slice_to :: "int \<Rightarrow> 'a list \<Rightarrow> 'a list" where
  "py_slice_to n xs =
     (if 0 \<le> n then take (nat n) xs else take (length xs - nat (- n)) xs)"

definition py_slice_from :: "int \<Rightarrow> 'a list \<Rightarrow> 'a list" where
  "py_slice_from n xs =
     (if 0 \<le> n then drop (nat n) xs else drop (length xs - nat (- n)) xs)"

text \<open>
  \<open>sorted(xs, key=f, reverse=True)\<close>: Python's sort is stable, and with
  \<open>reverse=True\<close> it reverses the list, sorts it stably in ascending order and reverses
  the result, so that items with equal keys keep their original order.
\<close>

definition sorted_reverse :: "('a \<Rightarrow> int) \<Rightarrow> 'a list \<Rightarrow> 'a list" where
  "sorted_reverse key xs = rev (sort_key key (rev xs))"


section \<open>Change triage (git/analyzer.py)\<close>

record FileChange =
  filename :: string
  status :: string
  lines_added :: int
  lines_removed :: int
  diff :: string
  old_filename :: "string option"

record AnalysisResult =
  filtered_changes :: "(string \<times> FileChange) list"
  excluded_files :: "string list"
  binary_files :: "string list"
  large_files :: "string list"
  total_lines_added :: int
  total_lines_removed :: int
  file_count :: nat

text \<open>
  The fields that \<open>ChangeAnalyzer.__init__\<close> reads from the \<open>git\<close> section of the
  configuration. The two library functions the analyzer calls, \<open>fnmatch.fnmatch\<close> and
  \<open>Path(filename).suffix.lower()\<close>, are fields of the analyzer as well, so that every
  result below holds for whatever these functions compute.
\<close>

record ChangeAnalyzer =
  exclude_patterns :: "string list"
  include_patterns :: "string list"
  binary_extensions :: "string list"
  max_diff_size :: int
  max_files :: int
  fnmatch :: "string \<Rightarrow> string \<Rightarrow> bool"
  suffix_lower :: "string \<Rightarrow> string"

fun any_pattern :: "(string \<Rightarrow> string \<Rightarrow> bool) \<Rightarrow> string \<Rightarrow> string list \<Rightarrow> bool" where
  "any_pattern m fname [] = False"
| "any_pattern m fname (pattern # ps) =
     (if m fname pattern then True else any_pattern m fname ps)"

definition should_exclude_file :: "ChangeAnalyzer \<Rightarrow> string \<Rightarrow> bool" where
  "should_exclude_file self fname = any_pattern (fnmatch self) fname (exclude_patterns self)"

definition should_include_file :: "ChangeAnalyzer \<Rightarrow> string \<Rightarrow> bool" where
  "should_include_file self fname =
     (if include_patterns self = [] then True
      else any_pattern (fnmatch self) fname (include_patterns self))"

definition is_binary_file :: "ChangeAnalyzer \<Rightarrow> string \<Rightarrow> bool" where
  "is_binary_file self fname = (suffix_lower self fname \<in> set (binary_extensions self))"

definition change_size :: "string \<times> FileChange \<Rightarrow> int" where
  "change_size x = lines_added (snd x) + lines_removed (snd x)"

text \<open>One iteration of the loop over \<open>changes.items()\<close> (lines 68 to 97).\<close>

definition triage_step :: "ChangeAnalyzer \<Rightarrow> AnalysisResult \<Rightarrow> string \<times> FileChange \<Rightarrow> AnalysisResult" where
  "triage_step self st item =
     (let fname = fst item; change = snd item in
      if should_exclude_file self fname
      then st\<lparr>excluded_files := excluded_files st @ [fname]\<rparr>
      else if include_patterns self \<noteq> [] \<and> \<not> should_include_file self fname
      then st\<lparr>excluded_files := excluded_files st @ [fname]\<rparr>
      else if is_binary_file self fname
      then st\<lparr>binary_files := binary_files st @ [fname]\<rparr>
      else if lines_added change + lines_removed change > max_diff_size self
      then st\<lparr>large_files := large_files st @ [fname]\<rparr>
      else st\<lparr>filtered_changes := dict_set (filtered_changes st) fname change,
              total_lines_added := total_lines_added st + lines_added change,
              total_lines_removed := total_lines_removed st + lines_removed change\<rparr>)"

fun triage_loop :: "ChangeAnalyzer \<Rightarrow> AnalysisResult \<Rightarrow> (string \<times> FileChange) list \<Rightarrow> AnalysisResult" where
  "triage_loop self st [] = st"
| "triage_loop self st (item # items) = triage_loop self (triage_step self st item) items"

definition triage_init :: AnalysisResult where
  "triage_init = \<lparr>filtered_changes = [], excluded_files = [], binary_files = [],
     large_files = [], total_lines_added = 0, total_lines_removed = 0, file_count = 0\<rparr>"

definition analyze_changes :: "ChangeAnalyzer \<Rightarrow> (string \<times> FileChange) list \<Rightarrow> AnalysisResult" where
  "analyze_changes self changes =
     (let st = triage_loop self triage_init changes in
      if int (length (filtered_changes st)) > max_files self
      then
        (let sorted_files = sorted_reverse change_size (filtered_changes st);
             limited_changes = dict_of (py_slice_to (max_files self) sorted_files)
         in st\<lparr>filtered_changes := limited_changes,
               excluded_files := excluded_files st @ map fst (py_slice_from (max_files self) sorted_files),
               file_count := length limited_changes\<rparr>)
      else st\<lparr>file_count := length (filtered_changes st)\<rparr>)"

text \<open>
  The files that pass the four filters of the loop, as a predicate on an item: this is
  the set the source calls the files that "pass all filters".
\<close>

definition survives :: "ChangeAnalyzer \<Rightarrow> string \<times> FileChange \<Rightarrow> bool" where
  "survives self item =
     (\<not> should_exclude_file self (fst item)
      \<and> \<not> (include_patterns self \<noteq> [] \<and> \<not> should_include_file self (fst item))
      \<and> \<not> is_binary_file self (fst item)
      \<and> \<not> lines_added (snd item) + lines_removed (snd item) > max_diff_size self)"


section \<open>Strings and numbers of the Python runtime\<close>

text \<open>
  Strings are byte strings here. \<open>str.strip()\<close> removes the ASCII white space of
  \<open>str.isspace\<close> from both ends; \<open>str.find\<close> and \<open>str.rfind\<close> return the index of
  the first and of the last occurrence of a character, or \<open>-1\<close>; \<open>s[a:b]\<close> is the
  general slice, where a negative bound counts from the end.
\<close>

definition is_space :: "char \<Rightarrow> bool" where
  "is_space c = ((of_char c :: nat) \<in> {9, 10, 11, 12, 13, 28, 29, 30, 31, 32})"

definition strip :: "string \<Rightarrow> string" where
  "strip s = rev (dropWhile is_space (rev (dropWhile is_space s)))"

definition py_find :: "char \<Rightarrow> string \<Rightarrow> int" where
  "py_find c s = (if c \<in> set s then int (length (takeWhile (\<lambda>x. x \<noteq> c) s)) else - 1)"

definition py_rfind :: "char \<Rightarrow> string \<Rightarrow> int" where
  "py_rfind c s =
     (if c \<in> set s then int (length s) - 1 - int (length (takeWhile (\<lambda>x. x \<noteq> c) (rev s)))
      else - 1)"

definition slice_bound :: "int \<Rightarrow> nat \<Rightarrow> nat" where
  "slice_bound i n = (if i < 0 then nat (int n + i) else min (nat i) n)"

definition py_slice :: "int \<Rightarrow> int \<Rightarrow> 'a list \<Rightarrow> 'a list" where
  "py_slice a b xs =
     (let lo = slice_bound a (length xs); hi = slice_bound b (length xs)
      in take (hi - lo) (drop lo xs))"

text \<open>\<open>str(n)\<close> for an integer, and \<open>sum(...)\<close>, which adds from the left starting at 0.\<close>

fun str_nat :: "nat \<Rightarrow> string" where
  "str_nat n =
     (if n < 10 then [char_of (48 + n)] else str_nat (n div 10) @ [char_of (48 + n mod 10)])"

definition str_int :: "int \<Rightarrow> string" where
  "str_int i = (if i < 0 then CHR ''-'' # str_nat (nat (- i)) else str_nat (nat i))"

definition py_sum :: "('a::monoid_add) list \<Rightarrow> 'a" where
  "py_sum xs = foldl (+) 0 xs"

text \<open>
  \<open>range(0, n, step)\<close> for a positive step, as the list of its values.
\<close>

definition range_step :: "nat \<Rightarrow> nat \<Rightarrow> nat list" where
  "range_step n step = map (\<lambda>j. j * step) [0 ..< (n + step - 1) div step]"


section \<open>Python floats\<close>

text \<open>
  A Python float is an IEEE 754 binary64 number: \<open>Finite m e\<close> is the number
  \<open>m * 2 ^ e\<close>, where a double has \<open>\<bar>m\<bar> < 2 ^ 53\<close>, \<open>e \<ge> -1074\<close> and a magnitude below
  \<open>2 ^ 1024\<close>; the other values are the two infinities and not-a-number. The sign of
  zero is not modelled (Python compares both zeros equal). \<open>float_add\<close> is the
  addition \<open>x + y\<close>: the exact sum, rounded to 53 significant bits with ties to the even
  neighbour, and an infinity when the rounded magnitude reaches \<open>2 ^ 1024\<close>. The sum
  of two doubles is a multiple of the smaller of their two units, so it never needs
  rounding below the smallest exponent. The result is kept in lowest terms: an odd
  \<open>m\<close>, or \<open>Finite 0 0\<close> for zero.
\<close>

datatype pyfloat = Finite int int | PosInf | NegInf | NaN

function bit_length :: "int \<Rightarrow> nat" where
  "bit_length n = (if n \<le> 0 then 0 else Suc (bit_length (n div 2)))"
  by pat_completeness auto
termination
  by (relation "measure nat") auto

function lowest_terms :: "int \<Rightarrow> int \<Rightarrow> int \<times> int" where
  "lowest_terms n e =
     (if n = 0 then (0, 0)
      else if even n then lowest_terms (n div 2) (e + 1)
      else (n, e))"
  by pat_completeness auto
termination
  by (relation "measure (\<lambda>p. nat \<bar>fst p\<bar>)") auto

definition round_half_even :: "int \<Rightarrow> nat \<Rightarrow> int" where
  "round_half_even n k =
     (if k = 0 then n
      else
        (let q = n div 2 ^ k; r = n mod 2 ^ k; half = 2 ^ (k - 1)
         in if r > half \<or> (r = half \<and> odd q) then q + 1 else q))"

definition round_double :: "int \<Rightarrow> int \<Rightarrow> pyfloat" where
  "round_double m e =
     (let k = bit_length \<bar>m\<bar> - 53;
          me = lowest_terms (round_half_even \<bar>m\<bar> k) (e + int k)
      in if fst me \<noteq> 0 \<and> int (bit_length (fst me)) + snd me > 1024
         then (if m < 0 then NegInf else PosInf)
         else Finite (if m < 0 then - fst me else fst me) (snd me))"

fun float_add :: "pyfloat \<Rightarrow> pyfloat \<Rightarrow> pyfloat" where
  "float_add (Finite m1 e1) (Finite m2 e2) =
     (let e = min e1 e2
      in round_double (m1 * 2 ^ nat (e1 - e) + m2 * 2 ^ nat (e2 - e)) e)"
| "float_add (Finite m e) PosInf = PosInf"
| "float_add (Finite m e) NegInf = NegInf"
| "float_add PosInf (Finite m e) = PosInf"
| "float_add NegInf (Finite m e) = NegInf"
| "float_add PosInf PosInf = PosInf"
| "float_add NegInf NegInf = NegInf"
| "float_add PosInf NegInf = NaN"
| "float_add NegInf PosInf = NaN"
| "float_add NaN y = NaN"
| "float_add x NaN = NaN"

text \<open>
  \<open>sum(...)\<close> over floats: it starts at the integer 0, which the first addition
  converts to the float zero, and adds the items from the left.
\<close>

definition float_sum :: "pyfloat list \<Rightarrow> pyfloat" where
  "float_sum xs = foldl float_add (Finite 0 0) xs"



section \<open>Exceptions (utils/exceptions.py)\<close>

text \<open>
  An exception is modelled by its class and by the text \<open>str(e)\<close> it carries. The
  constructors below build that text as the \<open>__init__\<close> methods do; an optional argument
  that is \<open>None\<close> or empty leaves its suffix out.
\<close>

datatype exn =
    BedrockError string
  | NetworkError string
  | ValidationError string
  | ValueError string
  | TypeError string
  | OtherException string

fun str_exn :: "exn \<Rightarrow> string" where
  "str_exn (BedrockError m) = m"
| "str_exn (NetworkError m) = m"
| "str_exn (ValidationError m) = m"
| "str_exn (ValueError m) = m"
| "str_exn (TypeError m) = m"
| "str_exn (OtherException m) = m"

definition new_BedrockError :: "string \<Rightarrow> string option \<Rightarrow> exn" where
  "new_BedrockError msg service_error =
     (case service_error of
        None \<Rightarrow> BedrockError (''AWS Bedrock error: '' @ msg)
      | Some s \<Rightarrow>
          if s = [] then BedrockError (''AWS Bedrock error: '' @ msg)
          else BedrockError (''AWS Bedrock error: '' @ msg @ '' ('' @ s @ '')''))"

definition new_NetworkError :: "string \<Rightarrow> exn" where
  "new_NetworkError msg = NetworkError (''Network error: '' @ msg)"

definition new_ValidationError :: "string \<Rightarrow> exn" where
  "new_ValidationError msg = ValidationError (''Validation error: '' @ msg)"


section \<open>Model catalog (bedrock/models.py)\<close>









section \<open>Model client (bedrock/client.py)\<close>

record BedrockResponse =
  content :: string
  response_model_id :: string
  input_tokens :: int
  output_tokens :: int
  stop_reason :: string
  response_cost_estimate :: pyfloat

text \<open>The two settings that \<open>invoke_model\<close> reads from the client.\<close>

record BedrockClient =
  retry_attempts :: int
  retry_delay :: real

text \<open>
  What the body of the \<open>try\<close> block of \<open>_invoke_model_once\<close> does on one call: it
  returns a parsed response, or it raises. A \<open>ClientError\<close> carries the optional
  \<open>Code\<close> and \<open>Message\<close> entries of its \<open>Error\<close> dictionary and its own text.
\<close>

datatype attempt =
    Responded BedrockResponse
  | RaisedClientError "string option" "string option" string
  | RaisedBotoCoreError string
  | RaisedJSONDecodeError string
  | RaisedException string

definition invoke_model_once :: "attempt \<Rightarrow> exn + BedrockResponse" where
  "invoke_model_once a =
     (case a of
        Responded r \<Rightarrow> Inr r
      | RaisedClientError code msg text \<Rightarrow>
          (let error_code = (case code of None \<Rightarrow> ''Unknown'' | Some c \<Rightarrow> c);
               error_message = (case msg of None \<Rightarrow> text | Some m \<Rightarrow> m)
           in if error_code = ''ThrottlingException''
              then Inl (new_BedrockError (''Rate limit exceeded: '' @ error_message) (Some error_code))
              else if error_code = ''ValidationException''
              then Inl (new_BedrockError (''Invalid request: '' @ error_message) (Some error_code))
              else if error_code = ''ModelNotReadyException''
              then Inl (new_BedrockError (''Model not ready: '' @ error_message) (Some error_code))
              else if error_code = ''ServiceQuotaExceededException''
              then Inl (new_BedrockError (''Service quota exceeded: '' @ error_message) (Some error_code))
              else Inl (new_BedrockError
                     (''Bedrock API error ('' @ error_code @ ''): '' @ error_message) (Some error_code)))
      | RaisedBotoCoreError text \<Rightarrow>
          Inl (new_NetworkError (''Network error calling Bedrock: '' @ text))
      | RaisedJSONDecodeError text \<Rightarrow>
          Inl (new_BedrockError (''Failed to parse Bedrock response: '' @ text) None)
      | RaisedException text \<Rightarrow>
          Inl (new_BedrockError (''Unexpected error calling Bedrock: '' @ text) None))"

text \<open>
  The run of \<open>invoke_model\<close>: what it returns or raises, the delays it slept, in order,
  and the number of calls of \<open>_invoke_model_once\<close> it made.
\<close>

record invocation =
  outcome :: "exn + BedrockResponse"
  sleeps :: "real list"
  calls :: nat

text \<open>
  The loop \<open>for attempt in range(self.retry_attempts + 1)\<close>. The argument \<open>world\<close> gives
  what the \<open>try\<close> block does on the call with a given attempt number; \<open>todo\<close> counts the
  iterations that remain. \<open>time.sleep\<close> raises \<open>ValueError\<close> on a negative delay.
\<close>

fun invoke_loop :: "BedrockClient \<Rightarrow> (nat \<Rightarrow> attempt) \<Rightarrow> nat \<Rightarrow> nat \<Rightarrow> real list \<Rightarrow> invocation" where
  "invoke_loop self world attempt 0 slept =
     \<lparr>outcome = Inl (new_BedrockError ''All retry attempts exhausted'' None),
      sleeps = slept, calls = attempt\<rparr>"
| "invoke_loop self world attempt (Suc todo) slept =
     (case invoke_model_once (world attempt) of
        Inr r \<Rightarrow> \<lparr>outcome = Inr r, sleeps = slept, calls = Suc attempt\<rparr>
      | Inl (BedrockError m) \<Rightarrow>
          if int attempt = retry_attempts self
          then \<lparr>outcome = Inl (BedrockError m), sleeps = slept, calls = Suc attempt\<rparr>
          else if retry_delay self * 2 ^ attempt < 0
          then \<lparr>outcome = Inl (ValueError ''sleep length must be non-negative''),
                sleeps = slept, calls = Suc attempt\<rparr>
          else invoke_loop self world (Suc attempt) todo (slept @ [retry_delay self * 2 ^ attempt])
      | Inl e \<Rightarrow> \<lparr>outcome = Inl e, sleeps = slept, calls = Suc attempt\<rparr>)"

definition invoke_model :: "BedrockClient \<Rightarrow> (nat \<Rightarrow> attempt) \<Rightarrow> invocation" where
  "invoke_model self world = invoke_loop self world 0 (nat (retry_attempts self + 1)) []"

section \<open>Review data (review/models.py)\<close>

text \<open>
  The values that \<open>json.loads\<close> returns. A JSON object is a Python dictionary, looked up
  with \<open>dict_get\<close> (the method \<open>d.get(key, default)\<close>).
\<close>

datatype json =
    JNull
  | JBool bool
  | JInt int
  | JFloat real
  | JString string
  | JArray "json list"
  | JObject "(string \<times> json) list"

definition dict_get :: "('k \<times> 'v) list \<Rightarrow> 'k \<Rightarrow> 'v \<Rightarrow> 'v" where
  "dict_get d k dflt = (case map_of d k of None \<Rightarrow> dflt | Some v \<Rightarrow> v)"

text \<open>
  The dataclasses do not check their annotations: an issue parsed from a model answer
  holds in \<open>rule\<close>, \<open>line\<close>, \<open>message\<close> and \<open>suggestion\<close> whatever JSON value the
  model sent, so these fields are JSON values (\<open>None\<close> is \<open>JNull\<close>). The severity is
  a string once the parser has validated it. Where two dataclasses share a field name,
  the fields of \<open>FileReviewResult\<close> carry the prefix \<open>fr_\<close>.
\<close>

record ReviewIssue =
  rule :: json
  severity :: string
  line :: json
  message :: json
  suggestion :: json
  file_path :: "string option"

record FileReviewResult =
  fr_filename :: string
  issues :: "ReviewIssue list"
  fr_summary :: json
  fr_total_issues :: int
  error_count :: int
  warning_count :: int
  info_count :: int
  suggestion_count :: int
  tokens_used :: int
  cost_estimate :: pyfloat

record ReviewResult =
  files :: "(string \<times> FileReviewResult) list"
  total_files :: int
  total_issues :: int
  total_errors :: int
  total_warnings :: int
  total_info :: int
  total_suggestions :: int
  total_tokens :: int
  total_cost :: pyfloat
  summary :: string


section \<open>Review orchestrator (review/engine.py)\<close>

text \<open>
  The settings that \<open>ReviewEngine.__init__\<close> reads, and \<open>json.loads\<close> as the engine
  calls it: on a text that starts with an opening brace it returns a dictionary or
  raises \<open>JSONDecodeError\<close> with some text.
\<close>

record ReviewEngine =
  severity_threshold :: string
  max_issues_per_file :: int
  batch_size :: int
  parallel_processing :: bool
  json_loads :: "string \<Rightarrow> string + (string \<times> json) list"

definition create_empty_result :: ReviewResult where
  "create_empty_result =
     \<lparr>files = [], total_files = 0, total_issues = 0, total_errors = 0, total_warnings = 0,
      total_info = 0, total_suggestions = 0, total_tokens = 0, total_cost = Finite 0 0,
      summary = ''No files to review''\<rparr>"

definition create_empty_file_result :: "string \<Rightarrow> FileReviewResult" where
  "create_empty_file_result fname =
     \<lparr>fr_filename = fname, issues = [], fr_summary = JString ''No issues found'',
      fr_total_issues = 0, error_count = 0, warning_count = 0, info_count = 0,
      suggestion_count = 0, tokens_used = 0, cost_estimate = Finite 0 0\<rparr>"

definition create_error_result :: "string \<Rightarrow> string \<Rightarrow> FileReviewResult" where
  "create_error_result fname error_message =
     (let error_issue =
            \<lparr>rule = JString ''system'', severity = ''error'', line = JNull,
             message = JString (''Review failed: '' @ error_message), suggestion = JNull,
             file_path = Some fname\<rparr>
      in \<lparr>fr_filename = fname, issues = [error_issue],
          fr_summary = JString (''Review failed: '' @ error_message),
          fr_total_issues = 1, error_count = 1, warning_count = 0, info_count = 0,
          suggestion_count = 0, tokens_used = 0, cost_estimate = Finite 0 0\<rparr>)"

text \<open>
  Severity validation (lines 284 to 286): a severity outside the four enumerated
  values becomes \<open>info\<close>. \<open>coerce_severity\<close> is the step on a string; a JSON value that
  is not a string equals none of the four and becomes \<open>info\<close> as well.
\<close>

definition coerce_severity :: "string \<Rightarrow> string" where
  "coerce_severity s =
     (if s \<notin> set [''error'', ''warning'', ''info'', ''suggestion''] then ''info'' else s)"

definition validated_severity :: "json \<Rightarrow> string" where
  "validated_severity v = (case v of JString s \<Rightarrow> coerce_severity s | _ \<Rightarrow> ''info'')"

definition severity_levels :: "(string \<times> int) list" where
  "severity_levels = [(''suggestion'', 1), (''info'', 2), (''warning'', 3), (''error'', 4)]"

definition meets_severity_threshold :: "ReviewEngine \<Rightarrow> string \<Rightarrow> bool" where
  "meets_severity_threshold self sev =
     (let threshold_level = dict_get severity_levels (severity_threshold self) 3;
          issue_level = dict_get severity_levels sev 2
      in issue_level \<ge> threshold_level)"

text \<open>
  The issue built from one dictionary of the answer (lines 275 to 286): missing fields
  get their defaults and the severity is validated.
\<close>

definition make_issue :: "string \<Rightarrow> (string \<times> json) list \<Rightarrow> ReviewIssue" where
  "make_issue fname d =
     \<lparr>rule = dict_get d ''rule'' (JString ''unknown''),
      severity = validated_severity (dict_get d ''severity'' (JString ''info'')),
      line = dict_get d ''line'' JNull,
      message = dict_get d ''message'' (JString []),
      suggestion = dict_get d ''suggestion'' JNull,
      file_path = Some fname\<rparr>"

text \<open>
  The loop over the entries of \<open>issues\<close> (lines 273 to 294). An entry that is not a
  dictionary has no method \<open>get\<close>: the inner handler logs the error and skips it.
\<close>

fun parse_issues :: "ReviewEngine \<Rightarrow> string \<Rightarrow> json list \<Rightarrow> ReviewIssue list \<Rightarrow> ReviewIssue list" where
  "parse_issues self fname [] acc = acc"
| "parse_issues self fname (issue_data # rest) acc =
     (case issue_data of
        JObject d \<Rightarrow>
          (let issue = make_issue fname d
           in if meets_severity_threshold self (severity issue)
              then parse_issues self fname rest (acc @ [issue])
              else parse_issues self fname rest acc)
      | _ \<Rightarrow> parse_issues self fname rest acc)"

text \<open>
  What a \<open>for\<close> loop iterates over when given a JSON value: the items of a list, the
  characters of a string, the keys of a dictionary; the other values are not iterable.
\<close>

definition iter_json :: "json \<Rightarrow> exn + json list" where
  "iter_json v =
     (case v of
        JArray xs \<Rightarrow> Inr xs
      | JString s \<Rightarrow> Inr (map (\<lambda>c. JString [c]) s)
      | JObject d \<Rightarrow> Inr (map (\<lambda>kv. JString (fst kv)) d)
      | JNull \<Rightarrow> Inl (TypeError '''NoneType' object is not iterable'')
      | JBool b \<Rightarrow> Inl (TypeError '''bool' object is not iterable'')
      | JInt i \<Rightarrow> Inl (TypeError '''int' object is not iterable'')
      | JFloat x \<Rightarrow> Inl (TypeError '''float' object is not iterable''))"

definition count_severity :: "string \<Rightarrow> ReviewIssue list \<Rightarrow> int" where
  "count_severity sev xs = py_sum (map (\<lambda>issue. 1) (filter (\<lambda>issue. severity issue = sev) xs))"

text \<open>
  The text between the first opening brace and the last closing brace of the answer
  (lines 255 to 264), or the \<open>ValidationError\<close> of line 262.
\<close>

definition extract_json :: "string \<Rightarrow> exn + string" where
  "extract_json text =
     (let content' = strip text;
          json_start = py_find CHR ''{'' content';
          json_end = py_rfind CHR ''}'' content' + 1
      in if json_start = - 1 \<or> json_end = 0
         then Inl (new_ValidationError ''No JSON found in response'')
         else Inr (py_slice json_start json_end content'))"

definition parse_review_response :: "ReviewEngine \<Rightarrow> string \<Rightarrow> BedrockResponse \<Rightarrow> FileReviewResult" where
  "parse_review_response self fname response =
     (case extract_json (content response) of
        Inl e \<Rightarrow> create_error_result fname (''Invalid response format: '' @ str_exn e)
      | Inr json_content \<Rightarrow>
          (case (if json_content = [] then Inl ''Expecting value: line 1 column 1 (char 0)''
                 else json_loads self json_content) of
             Inl e \<Rightarrow> create_error_result fname (''Invalid JSON response: '' @ e)
           | Inr parsed_response \<Rightarrow>
               (case map_of parsed_response ''issues'' of
                  None \<Rightarrow>
                    create_error_result fname
                      (''Invalid response format: ''
                         @ str_exn (new_ValidationError ''Response missing 'issues' field''))
                | Some listed \<Rightarrow>
                    (case iter_json listed of
                       Inl e \<Rightarrow> create_error_result fname (''Parsing error: '' @ str_exn e)
                     | Inr entries \<Rightarrow>
                         (let found = parse_issues self fname entries [];
                              kept = (if int (length found) > max_issues_per_file self
                                      then py_slice_to (max_issues_per_file self) found
                                      else found)
                          in \<lparr>fr_filename = fname, issues = kept,
                              fr_summary = dict_get parsed_response ''summary''
                                             (JString ''No summary provided''),
                              fr_total_issues = int (length kept),
                              error_count = count_severity ''error'' kept,
                              warning_count = count_severity ''warning'' kept,
                              info_count = count_severity ''info'' kept,
                              suggestion_count = count_severity ''suggestion'' kept,
                              tokens_used = input_tokens response + output_tokens response,
                              cost_estimate = response_cost_estimate response\<rparr>)))))"

text \<open>
  The batch handler (lines 123 to 135) and the sequential driver (lines 107 to 121)
  run the same loop. The argument \<open>review_single_file\<close> is what reviewing one file
  does: it returns a result or raises.
\<close>

definition review_or_error ::
  "(string \<Rightarrow> FileChange \<Rightarrow> exn + FileReviewResult) \<Rightarrow> string \<Rightarrow> FileChange \<Rightarrow> FileReviewResult" where
  "review_or_error review_single_file fname change =
     (case review_single_file fname change of
        Inr result \<Rightarrow> result
      | Inl e \<Rightarrow> create_error_result fname (str_exn e))"

fun review_loop ::
  "(string \<Rightarrow> FileChange \<Rightarrow> exn + FileReviewResult) \<Rightarrow> (string \<times> FileReviewResult) list
     \<Rightarrow> (string \<times> FileChange) list \<Rightarrow> (string \<times> FileReviewResult) list" where
  "review_loop review_single_file results [] = results"
| "review_loop review_single_file results (item # items) =
     review_loop review_single_file
       (dict_set results (fst item) (review_or_error review_single_file (fst item) (snd item)))
       items"

definition review_file_batch ::
  "(string \<Rightarrow> FileChange \<Rightarrow> exn + FileReviewResult) \<Rightarrow> (string \<times> FileChange) list
     \<Rightarrow> (string \<times> FileReviewResult) list" where
  "review_file_batch review_single_file batch = review_loop review_single_file [] batch"

definition review_files_sequential ::
  "(string \<Rightarrow> FileChange \<Rightarrow> exn + FileReviewResult) \<Rightarrow> (string \<times> FileChange) list
     \<Rightarrow> (string \<times> FileReviewResult) list" where
  "review_files_sequential review_single_file changes = review_loop review_single_file [] changes"

text \<open>
  The parallel driver (lines 77 to 105). The batches are the slices
  \<open>file_items[i:i + batch_size]\<close> for \<open>i\<close> in \<open>range(0, len(file_items), batch_size)\<close>;
  \<open>range\<close> raises \<open>ValueError\<close> on a zero step and is empty on a negative one. The
  argument \<open>completed\<close> is the order in which \<open>as_completed\<close> hands the batches back.
  The batch handler catches every exception, so \<open>future.result()\<close> returns.
\<close>

definition dict_update :: "('k \<times> 'v) list \<Rightarrow> ('k \<times> 'v) list \<Rightarrow> ('k \<times> 'v) list" where
  "dict_update d other = foldl (\<lambda>d kv. dict_set d (fst kv) (snd kv)) d other"

definition make_batches :: "int \<Rightarrow> 'a list \<Rightarrow> exn + 'a list list" where
  "make_batches step file_items =
     (if step = 0 then Inl (ValueError ''range() arg 3 must not be zero'')
      else if step < 0 then Inr []
      else Inr (map (\<lambda>i. py_slice (int i) (int i + step) file_items)
                  (range_step (length file_items) (nat step))))"

definition review_files_parallel ::
  "ReviewEngine \<Rightarrow> (string \<Rightarrow> FileChange \<Rightarrow> exn + FileReviewResult)
     \<Rightarrow> ((string \<times> FileChange) list list \<Rightarrow> (string \<times> FileChange) list list)
     \<Rightarrow> (string \<times> FileChange) list \<Rightarrow> exn + (string \<times> FileReviewResult) list" where
  "review_files_parallel self review_single_file completed changes =
     (case make_batches (batch_size self) changes of
        Inl e \<Rightarrow> Inl e
      | Inr batches \<Rightarrow>
          Inr (foldl (\<lambda>file_results batch.
                        dict_update file_results (review_file_batch review_single_file (dict_of batch)))
                 [] (completed batches)))"

text \<open>
  Aggregation (lines 390 to 420). The counters are integers; the cost is a float, so
  its total is the float sum in the iteration order of the dictionary. The first
  summary starts with the seven bytes of the source text.
\<close>

definition aggregate_results :: "(string \<times> FileReviewResult) list \<Rightarrow> ReviewResult" where
  "aggregate_results file_results =
     (let results = map snd file_results;
          n_files = int (length file_results);
          n_issues = py_sum (map fr_total_issues results);
          n_errors = py_sum (map error_count results);
          n_warnings = py_sum (map warning_count results);
          n_info = py_sum (map info_count results);
          n_suggestions = py_sum (map suggestion_count results);
          n_tokens = py_sum (map tokens_used results);
          cost = float_sum (map cost_estimate results);
          text =
            (if n_issues = 0
             then [CHR 0xC3, CHR 0xA2, CHR 0xC5, CHR 0x93, CHR 0xE2, CHR 0x80, CHR 0xA6]
                    @ '' No issues found in '' @ str_int n_files @ '' files''
             else ''Found '' @ str_int n_issues @ '' issues in '' @ str_int n_files @ '' files: ''
                    @ str_int n_errors @ '' errors, '' @ str_int n_warnings @ '' warnings, ''
                    @ str_int n_info @ '' info, '' @ str_int n_suggestions @ '' suggestions'')
      in \<lparr>files = file_results, total_files = n_files, total_issues = n_issues,
          total_errors = n_errors, total_warnings = n_warnings, total_info = n_info,
          total_suggestions = n_suggestions, total_tokens = n_tokens, total_cost = cost,
          summary = text\<rparr>)"

definition review_changes ::
  "ReviewEngine \<Rightarrow> (string \<Rightarrow> FileChange \<Rightarrow> exn + FileReviewResult)
     \<Rightarrow> ((string \<times> FileChange) list list \<Rightarrow> (string \<times> FileChange) list list)
     \<Rightarrow> (string \<times> FileChange) list \<Rightarrow> exn + ReviewResult" where
  "review_changes self review_single_file completed changes =
     (if changes = [] then Inr create_empty_result
      else if parallel_processing self \<and> length changes > 1
      then (case review_files_parallel self review_single_file completed changes of
              Inl e \<Rightarrow> Inl e
            | Inr file_results \<Rightarrow> Inr (aggregate_results file_results))
      else Inr (aggregate_results (review_files_sequential review_single_file changes)))"


section \<open>Notions of the specification\<close>

text \<open>
  The severities the specification enumerates, and its ordering of them, least to most
  severe: suggestion, info, warning, error.
\<close>

definition severities :: "string list" where
  "severities = [''error'', ''warning'', ''info'', ''suggestion'']"

definition severity_rank :: "string \<Rightarrow> nat" where
  "severity_rank s =
     (if s = ''suggestion'' then 0 else if s = ''info'' then 1
      else if s = ''warning'' then 2 else if s = ''error'' then 3 else 4)"

text \<open>The issues an answer lists, in the order of the answer, before any is dropped.\<close>

fun listed_issues :: "string \<Rightarrow> json list \<Rightarrow> ReviewIssue list" where
  "listed_issues fname [] = []"
| "listed_issues fname (JObject d # rest) = make_issue fname d # listed_issues fname rest"
| "listed_issues fname (v # rest) = listed_issues fname rest"


section \<open>Sample inputs\<close>

text \<open>
  An analyzer whose matcher accepts a name equal to the pattern and whose suffix is the
  last three characters of the name, and five changed files: one excluded by name, one
  binary, one too large, and three that pass the filters, of which the cap keeps two.
\<close>

definition sample_analyzer :: ChangeAnalyzer where
  "sample_analyzer =
     \<lparr>exclude_patterns = [''LICENSE''], include_patterns = [], binary_extensions = [''.so''],
      max_diff_size = 100, max_files = 2, fnmatch = (\<lambda>fname pattern. fname = pattern),
      suffix_lower = (\<lambda>fname. drop (length fname - 3) fname)\<rparr>"

definition change :: "string \<Rightarrow> int \<Rightarrow> int \<Rightarrow> string \<times> FileChange" where
  "change fname added removed =
     (fname, \<lparr>filename = fname, status = ''M'', lines_added = added, lines_removed = removed,
               diff = [], old_filename = None\<rparr>)"

definition sample_changes :: "(string \<times> FileChange) list" where
  "sample_changes =
     [change ''a.py'' 3 1, change ''LICENSE'' 1 1, change ''b.py'' 10 2, change ''lib.so'' 0 0,
      change ''big.py'' 90 20, change ''c.py'' 2 2]"

text \<open>
  An engine with the threshold \<open>warning\<close> whose JSON parser answers every text with an
  object that lists a suggestion and an error, and a model answer to parse.
\<close>

definition sample_engine :: ReviewEngine where
  "sample_engine =
     \<lparr>severity_threshold = ''warning'', max_issues_per_file = 10, batch_size = 2,
      parallel_processing = True,
      json_loads = (\<lambda>txt. Inr [(''issues'',
                      JArray [JObject [(''rule'', JString ''style''), (''severity'', JString ''suggestion'')],
                              JObject [(''rule'', JString ''security''), (''severity'', JString ''error'')]]),
                    (''summary'', JString ''two findings'')])\<rparr>"

definition sample_response :: BedrockResponse where
  "sample_response =
     \<lparr>content = ''Here is my review: {} Thanks.'', response_model_id = ''cohere.command-r-v1:0'',
      input_tokens = 2000, output_tokens = 1000, stop_reason = ''complete'',
      response_cost_estimate = Finite 5764607523034235 (- 61)\<rparr>"

text \<open>
  A client with two retries and a base delay of one second; a service that throttles
  every call; and a service that throttles the first call and then loses the connection.
\<close>

definition sample_client :: BedrockClient where
  "sample_client = \<lparr>retry_attempts = 2, retry_delay = 1\<rparr>"

definition throttling_service :: "nat \<Rightarrow> attempt" where
  "throttling_service k =
     RaisedClientError (Some ''ThrottlingException'') (Some ''slow down'') ''ClientError''"

definition failing_network :: "nat \<Rightarrow> attempt" where
  "failing_network k =
     (if k = 1 then RaisedBotoCoreError ''connection reset'' else throttling_service k)"

text \<open>
  An engine whose JSON parser rejects every text, one whose parser returns an object
  without the \<open>issues\<close> key, and a model answer without any brace.
\<close>

definition rejecting_engine :: ReviewEngine where
  "rejecting_engine = sample_engine\<lparr>json_loads := (\<lambda>s. Inl ''Expecting property name'')\<rparr>"

definition summary_only_engine :: ReviewEngine where
  "summary_only_engine = sample_engine\<lparr>json_loads := (\<lambda>s. Inr [(''summary'', JString ''fine'')])\<rparr>"

definition prose_response :: BedrockResponse where
  "prose_response = sample_response\<lparr>content := ''I cannot review this file.''\<rparr>"

text \<open>
  Two ways reviewing a file can go: every review returns the empty result; or the
  review of \<open>b.py\<close> raises a network error and every other review returns the empty
  result.
\<close>

definition healthy_review :: "string \<Rightarrow> FileChange \<Rightarrow> exn + FileReviewResult" where
  "healthy_review fname c = Inr (create_empty_file_result fname)"

definition failing_review :: "string \<Rightarrow> FileChange \<Rightarrow> exn + FileReviewResult" where
  "failing_review fname c =
     (if fname = ''b.py'' then Inl (new_NetworkError ''connection reset'')
      else healthy_review fname c)"




section \<open>Facts about the containers\<close>

lemma dict_set_fresh: "k \<notin> fst ` set d \<Longrightarrow> dict_set d k v = d @ [(k, v)]"
  by (induction d) auto

lemma dict_of_acc:
  "distinct (map fst d @ map fst pairs) \<Longrightarrow>
   foldl (\<lambda>d kv. dict_set d (fst kv) (snd kv)) d pairs = d @ pairs"
proof (induction pairs arbitrary: d)
  case Nil
  then show ?case by simp
next
  case (Cons p pairs)
  have fresh: "fst p \<notin> fst ` set d" using Cons.prems by auto
  have "distinct (map fst (d @ [p]) @ map fst pairs)" using Cons.prems by auto
  from Cons.IH [OF this] show ?case
    by (simp add: dict_set_fresh [OF fresh])
qed

lemma dict_of_distinct: "distinct (map fst pairs) \<Longrightarrow> dict_of pairs = pairs"
  using dict_of_acc [of "[]" pairs] by (simp add: dict_of_def)

lemma mset_sorted_reverse: "mset (sorted_reverse key xs) = mset xs"
  by (simp add: sorted_reverse_def)

lemma length_sorted_reverse: "length (sorted_reverse key xs) = length xs"
  by (simp add: sorted_reverse_def)

lemma set_sorted_reverse: "set (sorted_reverse key xs) = set xs"
  by (simp add: sorted_reverse_def)

lemma sorted_reverse_descending: "sorted (rev (map key (sorted_reverse key xs)))"
  by (simp add: sorted_reverse_def rev_map)

lemma sorted_reverse_stable:
  "filter (\<lambda>x. key x = k) (sorted_reverse key xs) = filter (\<lambda>x. key x = k) xs"
  by (simp add: sorted_reverse_def rev_filter [symmetric] sort_key_stable)

lemma distinct_keys_sorted_reverse:
  "distinct (map fst xs) \<Longrightarrow> distinct (map fst (sorted_reverse key xs))"
proof -
  assume d: "distinct (map fst xs)"
  have "mset (map fst (sorted_reverse key xs)) = mset (map fst xs)"
    by (simp add: mset_sorted_reverse)
  then show ?thesis using d by (metis mset_eq_imp_distinct_iff)
qed


section \<open>The triage loop\<close>

lemma triage_step_survives:
  "survives self item \<Longrightarrow>
   triage_step self st item =
     st\<lparr>filtered_changes := dict_set (filtered_changes st) (fst item) (snd item),
        total_lines_added := total_lines_added st + lines_added (snd item),
        total_lines_removed := total_lines_removed st + lines_removed (snd item)\<rparr>"
  by (auto simp add: survives_def triage_step_def Let_def)

lemma triage_step_dropped:
  assumes "\<not> survives self item"
  shows "filtered_changes (triage_step self st item) = filtered_changes st"
    and "total_lines_added (triage_step self st item) = total_lines_added st"
    and "total_lines_removed (triage_step self st item) = total_lines_removed st"
    and "mset (excluded_files (triage_step self st item)) + mset (binary_files (triage_step self st item))
           + mset (large_files (triage_step self st item))
         = mset (excluded_files st) + mset (binary_files st) + mset (large_files st) + {#fst item#}"
  using assms by (auto simp add: survives_def triage_step_def Let_def)

lemma triage_loop_filtered:
  "distinct (map fst (filtered_changes st) @ map fst items) \<Longrightarrow>
   filtered_changes (triage_loop self st items) = filtered_changes st @ filter (survives self) items"
proof (induction items arbitrary: st)
  case Nil
  then show ?case by simp
next
  case (Cons item items)
  show ?case
  proof (cases "survives self item")
    case True
    have fresh: "fst item \<notin> fst ` set (filtered_changes st)" using Cons.prems by auto
    let ?st = "triage_step self st item"
    have f: "filtered_changes ?st = filtered_changes st @ [item]"
      by (simp add: triage_step_survives [OF True] dict_set_fresh [OF fresh])
    have "distinct (map fst (filtered_changes ?st) @ map fst items)"
      using Cons.prems by (auto simp add: f)
    from Cons.IH [OF this] show ?thesis using True by (simp add: f)
  next
    case False
    let ?st = "triage_step self st item"
    have f: "filtered_changes ?st = filtered_changes st"
      by (rule triage_step_dropped(1) [OF False])
    have "distinct (map fst (filtered_changes ?st) @ map fst items)"
      using Cons.prems by (auto simp add: f)
    from Cons.IH [OF this] show ?thesis using False by (simp add: f)
  qed
qed

lemma triage_loop_total_added:
  "total_lines_added (triage_loop self st items)
     = total_lines_added st + sum_list (map (\<lambda>x. lines_added (snd x)) (filter (survives self) items))"
proof (induction items arbitrary: st)
  case Nil
  then show ?case by simp
next
  case (Cons item items)
  show ?case
    by (cases "survives self item")
       (simp_all add: Cons.IH triage_step_survives triage_step_dropped(2))
qed

lemma triage_loop_total_removed:
  "total_lines_removed (triage_loop self st items)
     = total_lines_removed st + sum_list (map (\<lambda>x. lines_removed (snd x)) (filter (survives self) items))"
proof (induction items arbitrary: st)
  case Nil
  then show ?case by simp
next
  case (Cons item items)
  show ?case
    by (cases "survives self item")
       (simp_all add: Cons.IH triage_step_survives triage_step_dropped(3))
qed

lemma triage_loop_buckets:
  "mset (excluded_files (triage_loop self st items)) + mset (binary_files (triage_loop self st items))
     + mset (large_files (triage_loop self st items)) + mset (map fst (filter (survives self) items))
   = mset (excluded_files st) + mset (binary_files st) + mset (large_files st) + mset (map fst items)"
proof (induction items arbitrary: st)
  case Nil
  then show ?case by simp
next
  case (Cons item items)
  show ?case
  proof (cases "survives self item")
    case True
    show ?thesis using True Cons.IH [of "triage_step self st item"]
      by (simp add: triage_step_survives)
  next
    case False
    show ?thesis
      using False triage_step_dropped(4) [OF False, of st] Cons.IH [of "triage_step self st item"]
      by simp
  qed
qed



section \<open>The result of triage\<close>

lemma py_slice_nonneg:
  "0 \<le> n \<Longrightarrow> py_slice_to n xs = take (nat n) xs \<and> py_slice_from n xs = drop (nat n) xs"
  by (simp add: py_slice_to_def py_slice_from_def)

lemma py_slice_split: "py_slice_to n xs @ py_slice_from n xs = xs"
  by (simp add: py_slice_to_def py_slice_from_def)

lemma triage_loop_init_filtered:
  "distinct (map fst changes) \<Longrightarrow>
   filtered_changes (triage_loop self triage_init changes) = filter (survives self) changes"
  using triage_loop_filtered [of triage_init changes self] by (simp add: triage_init_def)

lemma triage_loop_init_buckets:
  "mset (excluded_files (triage_loop self triage_init changes))
     + mset (binary_files (triage_loop self triage_init changes))
     + mset (large_files (triage_loop self triage_init changes))
     + mset (map fst (filter (survives self) changes))
   = mset (map fst changes)"
  using triage_loop_buckets [of self triage_init changes] by (simp add: triage_init_def)

lemma distinct_keys_filter: "distinct (map fst xs) \<Longrightarrow> distinct (map fst (filter P xs))"
  by (simp add: distinct_map_filter)

lemma distinct_keys_slice_to: "distinct (map fst xs) \<Longrightarrow> distinct (map fst (py_slice_to n xs))"
  by (simp add: py_slice_to_def take_map [symmetric])

text \<open>The buckets of the result, as one list of file names.\<close>

lemma analyze_changes_buckets:
  assumes "distinct (map fst changes)"
  shows "mset (map fst (filtered_changes (analyze_changes self changes))
              @ excluded_files (analyze_changes self changes)
              @ binary_files (analyze_changes self changes)
              @ large_files (analyze_changes self changes))
         = mset (map fst changes)"
proof -
  let ?st = "triage_loop self triage_init changes"
  let ?surv = "filter (survives self) changes"
  let ?sorted = "sorted_reverse change_size ?surv"
  have f: "filtered_changes ?st = ?surv"
    by (rule triage_loop_init_filtered [OF assms])
  have b: "mset (excluded_files ?st) + mset (binary_files ?st) + mset (large_files ?st)
             + mset (map fst ?surv) = mset (map fst changes)"
    by (rule triage_loop_init_buckets)
  show ?thesis
  proof (cases "int (length ?surv) > max_files self")
    case False
    then show ?thesis using b by (simp add: analyze_changes_def Let_def f ac_simps)
  next
    case True
    have d: "distinct (map fst (py_slice_to (max_files self) ?sorted))"
      by (intro distinct_keys_slice_to distinct_keys_sorted_reverse distinct_keys_filter assms)
    have "mset (map fst (py_slice_to (max_files self) ?sorted))
            + mset (map fst (py_slice_from (max_files self) ?sorted))
          = mset (map fst (py_slice_to (max_files self) ?sorted @ py_slice_from (max_files self) ?sorted))"
      by simp
    also have "\<dots> = mset (map fst ?surv)"
      by (simp only: py_slice_split) (simp add: mset_sorted_reverse)
    finally have s: "mset (map fst (py_slice_to (max_files self) ?sorted))
            + mset (map fst (py_slice_from (max_files self) ?sorted)) = mset (map fst ?surv)" .
    show ?thesis using True b s
      by (simp add: analyze_changes_def Let_def f dict_of_distinct [OF d] ac_simps)
  qed
qed

lemma analyze_changes_bounded:
  assumes "distinct (map fst changes)" and "0 \<le> max_files self"
  shows "int (length (filtered_changes (analyze_changes self changes))) \<le> max_files self"
proof -
  let ?st = "triage_loop self triage_init changes"
  let ?surv = "filter (survives self) changes"
  let ?sorted = "sorted_reverse change_size ?surv"
  have f: "filtered_changes ?st = ?surv"
    by (rule triage_loop_init_filtered [OF assms(1)])
  show ?thesis
  proof (cases "int (length ?surv) > max_files self")
    case False
    then show ?thesis by (simp add: analyze_changes_def Let_def f)
  next
    case True
    have d: "distinct (map fst (py_slice_to (max_files self) ?sorted))"
      by (intro distinct_keys_slice_to distinct_keys_sorted_reverse distinct_keys_filter assms)
    have len: "int (length (py_slice_to (max_files self) ?sorted)) \<le> max_files self"
      using assms(2) by (simp add: py_slice_to_def)
    show ?thesis using True len
      by (simp add: analyze_changes_def Let_def f dict_of_distinct [OF d])
  qed
qed

lemma analyze_changes_empty:
  "analyze_changes self [] = triage_init"
  by (simp add: analyze_changes_def Let_def triage_init_def sorted_reverse_def
        py_slice_to_def py_slice_from_def dict_of_def)


section \<open>Facts about the review engine and the catalog\<close>



lemma coerce_severity_valid: "coerce_severity s \<in> set severities"
  by (simp add: coerce_severity_def severities_def)

lemma validated_severity_valid: "validated_severity v \<in> set severities"
  by (cases v) (simp_all add: validated_severity_def coerce_severity_valid, simp_all add: severities_def)

lemma make_issue_severity: "severity (make_issue fname d) \<in> set severities"
  by (simp add: make_issue_def validated_severity_valid)

lemma meets_severity_threshold_rank:
  assumes "severity_threshold self \<in> set severities" and "s \<in> set severities"
  shows "meets_severity_threshold self s \<longleftrightarrow> severity_rank (severity_threshold self) \<le> severity_rank s"
  using assms
  by (auto simp add: severities_def meets_severity_threshold_def severity_levels_def
        dict_get_def severity_rank_def Let_def)

lemma parse_issues_filter:
  "parse_issues self fname entries acc
     = acc @ filter (\<lambda>i. meets_severity_threshold self (severity i)) (listed_issues fname entries)"
proof (induction entries arbitrary: acc)
  case Nil
  then show ?case by simp
next
  case (Cons v entries)
  then show ?case by (cases v) (simp_all add: Let_def)
qed

lemma listed_issues_valid: "i \<in> set (listed_issues fname entries) \<Longrightarrow> severity i \<in> set severities"
proof (induction entries)
  case Nil
  then show ?case by simp
next
  case (Cons v entries)
  then show ?case by (cases v) (auto simp add: make_issue_severity)
qed

lemma cap_is_take:
  "0 \<le> n \<Longrightarrow> (if int (length xs) > n then py_slice_to n xs else xs) = take (nat n) xs"
  by (simp add: py_slice_to_def)

lemma parse_review_response_listed:
  assumes "extract_json (content response) = Inr js" and "js \<noteq> []"
    and "json_loads self js = Inr parsed"
    and "map_of parsed ''issues'' = Some (JArray entries)"
  shows "issues (parse_review_response self fname response)
         = (if int (length (parse_issues self fname entries [])) > max_issues_per_file self
            then py_slice_to (max_issues_per_file self) (parse_issues self fname entries [])
            else parse_issues self fname entries [])"
  using assms by (simp add: parse_review_response_def iter_json_def Let_def)


section \<open>Facts about the retry loop\<close>

lemma invoke_loop_retry:
  assumes "invoke_model_once (world a) = Inl (BedrockError m)"
    and "int a \<noteq> retry_attempts self" and "0 \<le> retry_delay self"
  shows "invoke_loop self world a (Suc todo) slept
           = invoke_loop self world (Suc a) todo (slept @ [retry_delay self * 2 ^ a])"
proof -
  have "\<not> retry_delay self * 2 ^ a < 0"
    using assms(3) by (simp add: not_less)
  then show ?thesis using assms(1,2) by simp
qed

lemma invoke_loop_retries:
  assumes "\<forall>j. a \<le> j \<and> j < a + n \<longrightarrow>
             (\<exists>m. invoke_model_once (world j) = Inl (BedrockError m)) \<and> int j \<noteq> retry_attempts self"
    and "0 \<le> retry_delay self"
  shows "invoke_loop self world a (n + todo) slept
           = invoke_loop self world (a + n) todo
               (slept @ map (\<lambda>k. retry_delay self * 2 ^ k) [a ..< a + n])"
  using assms(1)
proof (induction n arbitrary: a slept)
  case 0
  then show ?case by simp
next
  case (Suc n)
  have "(\<exists>m. invoke_model_once (world a) = Inl (BedrockError m)) \<and> int a \<noteq> retry_attempts self"
    using Suc.prems by simp
  then obtain m where m: "invoke_model_once (world a) = Inl (BedrockError m)"
    and ne: "int a \<noteq> retry_attempts self"
    by blast
  have rest: "\<forall>j. Suc a \<le> j \<and> j < Suc a + n \<longrightarrow>
             (\<exists>m. invoke_model_once (world j) = Inl (BedrockError m)) \<and> int j \<noteq> retry_attempts self"
    using Suc.prems by auto
  have "invoke_loop self world a (Suc n + todo) slept
          = invoke_loop self world (Suc a) (n + todo) (slept @ [retry_delay self * 2 ^ a])"
    using invoke_loop_retry [where world = world and a = a, OF m ne assms(2)] by simp
  also have "\<dots> = invoke_loop self world (Suc a + n) todo
               ((slept @ [retry_delay self * 2 ^ a])
                  @ map (\<lambda>k. retry_delay self * 2 ^ k) [Suc a ..< Suc a + n])"
    by (rule Suc.IH [where a = "Suc a", OF rest])
  also have "(slept @ [retry_delay self * 2 ^ a]) @ map (\<lambda>k. retry_delay self * 2 ^ k) [Suc a ..< Suc a + n]
               = slept @ map (\<lambda>k. retry_delay self * 2 ^ k) [a ..< a + Suc n]"
    by (simp add: upt_conv_Cons)
  finally show ?case by simp
qed

lemma invoke_model_exhausted:
  assumes "0 \<le> retry_attempts self" and "0 \<le> retry_delay self"
    and "\<forall>k \<le> nat (retry_attempts self). \<exists>m. invoke_model_once (world k) = Inl (BedrockError m)"
  shows "invoke_model self world
           = \<lparr>outcome = invoke_model_once (world (nat (retry_attempts self))),
              sleeps = map (\<lambda>k. retry_delay self * 2 ^ k) [0 ..< nat (retry_attempts self)],
              calls = nat (retry_attempts self) + 1\<rparr>"
proof -
  let ?r = "nat (retry_attempts self)"
  have skip: "\<forall>j. 0 \<le> j \<and> j < 0 + ?r \<longrightarrow>
             (\<exists>m. invoke_model_once (world j) = Inl (BedrockError m)) \<and> int j \<noteq> retry_attempts self"
    using assms(1,3) by auto
  obtain m where m: "invoke_model_once (world ?r) = Inl (BedrockError m)"
    using assms(3) by blast
  have last: "int ?r = retry_attempts self" using assms(1) by simp
  have n: "nat (retry_attempts self + 1) = ?r + 1" using assms(1) by simp
  have "invoke_model self world = invoke_loop self world 0 (?r + 1) []"
    by (simp only: invoke_model_def n)
  also have "\<dots> = invoke_loop self world (0 + ?r) 1
                     ([] @ map (\<lambda>k. retry_delay self * 2 ^ k) [0 ..< 0 + ?r])"
    by (rule invoke_loop_retries [where world = world and a = 0 and n = ?r, OF skip assms(2)])
  also have "\<dots> = \<lparr>outcome = invoke_model_once (world ?r),
              sleeps = map (\<lambda>k. retry_delay self * 2 ^ k) [0 ..< ?r], calls = ?r + 1\<rparr>"
    using m last by simp
  finally show ?thesis .
qed

lemma invoke_model_network:
  assumes "0 \<le> retry_attempts self" and "0 \<le> retry_delay self"
    and "k \<le> nat (retry_attempts self)"
    and "\<forall>j < k. \<exists>m. invoke_model_once (world j) = Inl (BedrockError m)"
    and "world k = RaisedBotoCoreError t"
  shows "invoke_model self world
           = \<lparr>outcome = Inl (NetworkError (''Network error: Network error calling Bedrock: '' @ t)),
              sleeps = map (\<lambda>i. retry_delay self * 2 ^ i) [0 ..< k],
              calls = k + 1\<rparr>"
proof -
  let ?r = "nat (retry_attempts self)"
  have skip: "\<forall>j. 0 \<le> j \<and> j < 0 + k \<longrightarrow>
             (\<exists>m. invoke_model_once (world j) = Inl (BedrockError m)) \<and> int j \<noteq> retry_attempts self"
    using assms(1,3,4) by auto
  have n: "nat (retry_attempts self + 1) = k + Suc (?r - k)" using assms(1,3) by simp
  have once: "invoke_model_once (world k)
                = Inl (NetworkError (''Network error: Network error calling Bedrock: '' @ t))"
    by (simp add: assms(5) invoke_model_once_def new_NetworkError_def)
  have "invoke_model self world = invoke_loop self world 0 (k + Suc (?r - k)) []"
    by (simp only: invoke_model_def n)
  also have "\<dots> = invoke_loop self world (0 + k) (Suc (?r - k))
                     ([] @ map (\<lambda>i. retry_delay self * 2 ^ i) [0 ..< 0 + k])"
    by (rule invoke_loop_retries [where world = world and a = 0 and n = k, OF skip assms(2)])
  also have "\<dots> = \<lparr>outcome = Inl (NetworkError (''Network error: Network error calling Bedrock: '' @ t)),
              sleeps = map (\<lambda>i. retry_delay self * 2 ^ i) [0 ..< k], calls = k + 1\<rparr>"
    using once by simp
  finally show ?thesis .
qed


section \<open>Facts about locating the JSON text\<close>

lemma not_space_braces: "\<not> is_space CHR ''{''" "\<not> is_space CHR ''}''"
  by (simp_all add: is_space_def)

lemma dropWhile_stop: "\<not> P c \<Longrightarrow> dropWhile P (xs @ c # ys) = dropWhile P xs @ c # ys"
  by (induction xs) auto

lemma takeWhile_upto: "c \<notin> set p \<Longrightarrow> takeWhile (\<lambda>x. x \<noteq> c) (p @ c # r) = p"
  by (induction p) auto

lemma strip_subset: "set (strip s) \<subseteq> set s"
proof
  fix x assume "x \<in> set (strip s)"
  then have "x \<in> set (dropWhile is_space (rev (dropWhile is_space s)))"
    by (simp add: strip_def)
  then have "x \<in> set (rev (dropWhile is_space s))"
    by (rule set_dropWhileD)
  then have "x \<in> set (dropWhile is_space s)" by simp
  then show "x \<in> set s" by (rule set_dropWhileD)
qed

lemma strip_around:
  assumes "\<not> is_space c" and "\<not> is_space d"
  shows "strip (p @ c # m @ d # q)
           = dropWhile is_space p @ c # m @ d # rev (dropWhile is_space (rev q))"
proof -
  have a: "dropWhile is_space (p @ c # m @ d # q) = dropWhile is_space p @ c # m @ d # q"
    by (rule dropWhile_stop [where P = is_space, OF assms(1)])
  have b: "rev (dropWhile is_space p @ c # m @ d # q) = rev q @ d # (rev m @ c # rev (dropWhile is_space p))"
    by simp
  have c: "dropWhile is_space (rev q @ d # (rev m @ c # rev (dropWhile is_space p)))
             = dropWhile is_space (rev q) @ d # (rev m @ c # rev (dropWhile is_space p))"
    by (rule dropWhile_stop [where P = is_space, OF assms(2)])
  show ?thesis by (simp add: strip_def a b c)
qed

lemma py_find_first: "c \<notin> set p \<Longrightarrow> py_find c (p @ c # r) = int (length p)"
  by (simp add: py_find_def takeWhile_upto)

lemma py_rfind_last: "c \<notin> set q \<Longrightarrow> py_rfind c (xs @ c # q) = int (length xs)"
proof -
  assume n: "c \<notin> set q"
  have "takeWhile (\<lambda>x. x \<noteq> c) (rev q @ c # rev xs) = rev q"
    using n by (simp add: takeWhile_upto)
  then show ?thesis by (simp add: py_rfind_def)
qed

lemma py_find_none: "c \<notin> set s \<Longrightarrow> py_find c s = - 1"
  by (simp add: py_find_def)

lemma py_rfind_none: "c \<notin> set s \<Longrightarrow> py_rfind c s = - 1"
  by (simp add: py_rfind_def)

lemma py_slice_nat:
  "py_slice (int a) (int b) xs = take (min b (length xs) - min a (length xs)) (drop (min a (length xs)) xs)"
  by (simp add: py_slice_def slice_bound_def Let_def)

lemma py_slice_middle:
  "py_slice (int (length p)) (int (length p + length m)) (p @ m @ q) = m"
  by (simp only: py_slice_nat) simp

lemma py_slice_empty: "b \<le> a \<Longrightarrow> py_slice (int a) (int b) xs = []"
  by (simp only: py_slice_nat) (simp add: min_def)

lemma extract_json_unfold:
  "extract_json s =
     (if py_find CHR ''{'' (strip s) = - 1 \<or> py_rfind CHR ''}'' (strip s) + 1 = 0
      then Inl (ValidationError ''Validation error: No JSON found in response'')
      else Inr (py_slice (py_find CHR ''{'' (strip s)) (py_rfind CHR ''}'' (strip s) + 1) (strip s)))"
  by (simp add: extract_json_def Let_def new_ValidationError_def)

lemma extract_json_between:
  assumes "CHR ''{'' \<notin> set before" and "CHR ''}'' \<notin> set after"
  shows "extract_json (before @ CHR ''{'' # inner @ CHR ''}'' # after)
           = Inr (CHR ''{'' # inner @ [CHR ''}''])"
proof -
  let ?p = "dropWhile is_space before"
  let ?q = "rev (dropWhile is_space (rev after))"
  let ?m = "CHR ''{'' # inner @ [CHR ''}'']"
  let ?s = "strip (before @ CHR ''{'' # inner @ CHR ''}'' # after)"
  have s: "?s = ?p @ ?m @ ?q"
    using strip_around [OF not_space_braces, of before inner after] by simp
  have np: "CHR ''{'' \<notin> set ?p"
    using assms(1) set_dropWhileD by fastforce
  have nq: "CHR ''}'' \<notin> set ?q"
    using assms(2) set_dropWhileD [of _ is_space "rev after"] by auto
  have f: "py_find CHR ''{'' ?s = int (length ?p)"
    using py_find_first [OF np, of "inner @ [CHR ''}''] @ ?q"] by (simp add: s)
  have r: "py_rfind CHR ''}'' ?s + 1 = int (length ?p + length ?m)"
    using py_rfind_last [OF nq, of "?p @ CHR ''{'' # inner"] by (simp add: s)
  have sl: "py_slice (int (length ?p)) (int (length ?p + length ?m)) ?s = ?m"
    using py_slice_middle [of ?p ?m ?q] by (simp only: s)
  have c: "\<not> (int (length ?p) = - 1 \<or> int (length ?p + length ?m) = 0)"
    by simp
  show ?thesis
    by (simp only: extract_json_unfold f r sl c if_False)
qed

lemma extract_json_reversed:
  assumes "CHR ''{'' \<notin> set a" and "CHR ''{'' \<notin> set b" and "CHR ''}'' \<notin> set b" and "CHR ''}'' \<notin> set c"
  shows "extract_json (a @ CHR ''}'' # b @ CHR ''{'' # c) = Inr []"
proof -
  let ?p = "dropWhile is_space a"
  let ?q = "rev (dropWhile is_space (rev c))"
  let ?s = "strip (a @ CHR ''}'' # b @ CHR ''{'' # c)"
  have s: "?s = ?p @ CHR ''}'' # b @ CHR ''{'' # ?q"
    using strip_around [OF not_space_braces(2) not_space_braces(1), of a b c] by simp
  have np: "CHR ''{'' \<notin> set ?p"
    using assms(1) set_dropWhileD by fastforce
  have nq: "CHR ''}'' \<notin> set ?q"
    using assms(4) set_dropWhileD [of _ is_space "rev c"] by auto
  have f: "py_find CHR ''{'' ?s = int (length ?p + 1 + length b)"
    using py_find_first [of "CHR ''{''" "?p @ CHR ''}'' # b" ?q] np assms(2) by (simp add: s)
  have r: "py_rfind CHR ''}'' ?s + 1 = int (length ?p + 1)"
    using py_rfind_last [of "CHR ''}''" "b @ CHR ''{'' # ?q" ?p] nq assms(3) by (simp add: s)
  have sl: "py_slice (int (length ?p + 1 + length b)) (int (length ?p + 1)) ?s = []"
    by (rule py_slice_empty) simp
  have c: "\<not> (int (length ?p + 1 + length b) = - 1 \<or> int (length ?p + 1) = 0)"
    by simp
  show ?thesis
    by (simp only: extract_json_unfold f r sl c if_False)
qed

lemma extract_json_none:
  assumes "CHR ''{'' \<notin> set s \<or> CHR ''}'' \<notin> set s"
  shows "extract_json s = Inl (ValidationError ''Validation error: No JSON found in response'')"
proof -
  have "CHR ''{'' \<notin> set (strip s) \<or> CHR ''}'' \<notin> set (strip s)"
    using assms strip_subset [of s] by blast
  then have "py_find CHR ''{'' (strip s) = - 1 \<or> py_rfind CHR ''}'' (strip s) + 1 = 0"
    using py_find_none [of "CHR ''{''" "strip s"] py_rfind_none [of "CHR ''}''" "strip s"] by auto
  then show ?thesis
    by (simp only: extract_json_unfold if_True)
qed


section \<open>Facts about batches\<close>

lemma map_of_dict_set: "map_of (dict_set d k v) = (map_of d)(k \<mapsto> v)"
  by (induction d) (auto simp add: fun_eq_iff)

lemma review_loop_lookup:
  "map_of (review_loop rv results items) k
     = (case map_of (rev items) k of
          Some ch \<Rightarrow> Some (review_or_error rv k ch)
        | None \<Rightarrow> map_of results k)"
proof (induction items arbitrary: results)
  case Nil
  then show ?case by simp
next
  case (Cons item items)
  show ?case
    by (simp add: Cons.IH map_of_dict_set map_add_def split: option.splits)
qed

lemma review_loop_keys:
  "distinct (map fst results @ map fst items) \<Longrightarrow>
   map fst (review_loop rv results items) = map fst results @ map fst items"
proof (induction items arbitrary: results)
  case Nil
  then show ?case by simp
next
  case (Cons item items)
  let ?next = "dict_set results (fst item) (review_or_error rv (fst item) (snd item))"
  have fresh: "fst item \<notin> fst ` set results"
    using Cons.prems by auto
  have k: "map fst ?next = map fst results @ [fst item]"
    by (simp add: dict_set_fresh [OF fresh])
  have "distinct (map fst ?next @ map fst items)"
    using Cons.prems by (auto simp add: k)
  from Cons.IH [OF this] show ?case by (simp add: k)
qed

lemma map_of_rev_distinct: "distinct (map fst xs) \<Longrightarrow> map_of (rev xs) = map_of xs"
  by (rule iffD2 [OF map_of_inject_set]) (simp_all add: rev_map [symmetric])

lemma review_file_batch_lookup:
  assumes "distinct (map fst batch)"
  shows "map_of (review_file_batch rv batch) k = map_option (review_or_error rv k) (map_of batch k)"
  using review_loop_lookup [of rv "[]" batch k] map_of_rev_distinct [OF assms]
  by (simp add: review_file_batch_def split: option.splits)

lemma review_file_batch_keys:
  "distinct (map fst batch) \<Longrightarrow> map fst (review_file_batch rv batch) = map fst batch"
  using review_loop_keys [of "[]" batch rv] by (simp add: review_file_batch_def)

lemma dict_update_lookup:
  "map_of (dict_update d other) k
     = (case map_of (rev other) k of Some v \<Rightarrow> Some v | None \<Rightarrow> map_of d k)"
  unfolding dict_update_def
proof (induction other arbitrary: d)
  case Nil
  then show ?case by simp
next
  case (Cons kv other)
  show ?case
    by (simp add: Cons.IH map_of_dict_set map_add_def split: option.splits)
qed

lemma batches_lookup:
  assumes "distinct (map fst (concat bs))"
  shows "map_of (foldl (\<lambda>file_results batch.
                          dict_update file_results (review_file_batch rv (dict_of batch))) acc bs) k
         = (case map_of (concat bs) k of
              Some ch \<Rightarrow> Some (review_or_error rv k ch)
            | None \<Rightarrow> map_of acc k)"
  using assms
proof (induction bs arbitrary: acc)
  case Nil
  then show ?case by simp
next
  case (Cons b bs)
  have db: "distinct (map fst b)" and dr: "distinct (map fst (concat bs))"
    and dj: "fst ` set b \<inter> fst ` set (concat bs) = {}"
    using Cons.prems by auto
  have e: "dict_of b = b" by (rule dict_of_distinct [OF db])
  have dk: "distinct (map fst (review_file_batch rv b))"
    by (simp add: review_file_batch_keys [OF db] db)
  have l: "map_of (rev (review_file_batch rv b)) k = map_option (review_or_error rv k) (map_of b k)"
    by (simp add: map_of_rev_distinct [OF dk] review_file_batch_lookup [OF db])
  have first: "map_of (dict_update acc (review_file_batch rv b)) k
                 = (case map_of b k of Some ch \<Rightarrow> Some (review_or_error rv k ch) | None \<Rightarrow> map_of acc k)"
    by (simp add: dict_update_lookup l split: option.splits)
  have excl: "map_of (concat bs) k = None" if "map_of b k \<noteq> None"
  proof -
    from that have "k \<in> fst ` set b" by (simp add: map_of_eq_None_iff)
    then have "k \<notin> fst ` set (concat bs)" using dj by blast
    then show ?thesis by (simp add: map_of_eq_None_iff)
  qed
  show ?case
    using excl by (auto simp add: Cons.IH [OF dr] e first map_add_def split: option.splits)
qed

lemma py_slice_chunk: "py_slice (int a) (int a + int s) xs = take s (drop a xs)"
proof -
  have "py_slice (int a) (int (a + s)) xs
          = take (min (a + s) (length xs) - min a (length xs)) (drop (min a (length xs)) xs)"
    by (rule py_slice_nat)
  also have "\<dots> = take s (drop a xs)"
  proof (cases "a \<le> length xs")
    case True
    then show ?thesis by (cases "a + s \<le> length xs") (simp_all add: min_def)
  next
    case False
    then show ?thesis by (simp add: min_def)
  qed
  finally show ?thesis by simp
qed

lemma concat_chunks:
  "concat (map (\<lambda>j. take s (drop (j * s) xs)) [0 ..< m]) = take (m * s) xs"
proof (induction m)
  case 0
  then show ?case by simp
next
  case (Suc m)
  have "take (m * s + s) xs = take (m * s) xs @ take s (drop (m * s) xs)"
    by (rule take_add)
  then show ?case by (simp add: Suc.IH add.commute)
qed

lemma chunks_cover: "0 < s \<Longrightarrow> n \<le> (n + s - 1) div s * s" for n s :: nat
proof -
  assume s: "0 < s"
  have a: "(n + s - 1) div s * s + (n + s - 1) mod s = n + s - 1"
    by (rule div_mult_mod_eq)
  have b: "(n + s - 1) mod s < s"
    using s by simp
  show ?thesis using a b s by linarith
qed

lemma make_batches_concat:
  assumes "0 < step"
  shows "\<exists>bs. make_batches step xs = Inr bs \<and> concat bs = xs"
proof -
  let ?s = "nat step"
  let ?m = "(length xs + ?s - 1) div ?s"
  have st: "int ?s = step" and pos: "0 < ?s" using assms by simp_all
  have b: "map (\<lambda>i. py_slice (int i) (int i + step) xs) (range_step (length xs) ?s)
             = map (\<lambda>j. take ?s (drop (j * ?s) xs)) [0 ..< ?m]"
  proof -
    have p: "py_slice (int (j * ?s)) (int (j * ?s) + step) xs = take ?s (drop (j * ?s) xs)" for j
      using py_slice_chunk [of "j * ?s" ?s xs] by (simp only: st)
    show ?thesis by (simp only: range_step_def map_map comp_def p)
  qed
  have "concat (map (\<lambda>j. take ?s (drop (j * ?s) xs)) [0 ..< ?m]) = take (?m * ?s) xs"
    by (rule concat_chunks)
  also have "\<dots> = xs"
    using chunks_cover [OF pos, of "length xs"] by simp
  finally have c: "concat (map (\<lambda>j. take ?s (drop (j * ?s) xs)) [0 ..< ?m]) = xs" .
  have "make_batches step xs = Inr (map (\<lambda>j. take ?s (drop (j * ?s) xs)) [0 ..< ?m])"
    using assms b by (simp add: make_batches_def)
  then show ?thesis using c by blast
qed

lemma concat_permuted:
  assumes "mset ys = mset xs"
  shows "mset (concat ys) = mset (concat xs)"
proof -
  have "mset (concat ys) = sum_mset (image_mset mset (mset ys))"
    by (simp add: mset_concat sum_mset_sum_list [symmetric])
  also have "\<dots> = sum_mset (image_mset mset (mset xs))"
    by (simp only: assms)
  also have "\<dots> = mset (concat xs)"
    by (simp add: mset_concat sum_mset_sum_list [symmetric])
  finally show ?thesis .
qed

lemma review_files_parallel_lookup:
  assumes "distinct (map fst changes)" and "0 < batch_size self"
    and "\<forall>bs. mset (completed bs) = mset bs"
  shows "\<exists>results. review_files_parallel self rv completed changes = Inr results
           \<and> (\<forall>k. map_of results k = map_option (review_or_error rv k) (map_of changes k))"
proof -
  obtain bs where bs: "make_batches (batch_size self) changes = Inr bs" and c: "concat bs = changes"
    using make_batches_concat [OF assms(2), of changes] by blast
  let ?done = "completed bs"
  have m: "mset (concat ?done) = mset changes"
    using concat_permuted [of ?done bs] assms(3) c by simp
  have d: "distinct (map fst (concat ?done))"
  proof -
    have "mset (map fst (concat ?done)) = mset (map fst changes)" by (simp add: m)
    then show ?thesis using assms(1) by (metis mset_eq_imp_distinct_iff)
  qed
  have s: "set (concat ?done) = set changes"
    using m by (metis set_mset_mset)
  have same: "map_of (concat ?done) = map_of changes"
    using map_of_inject_set [OF d assms(1)] s by simp
  let ?results = "foldl (\<lambda>file_results batch.
                          dict_update file_results (review_file_batch rv (dict_of batch))) [] ?done"
  have r: "review_files_parallel self rv completed changes = Inr ?results"
    by (simp add: review_files_parallel_def bs)
  have l: "map_of ?results k = map_option (review_or_error rv k) (map_of changes k)" for k
    using batches_lookup [OF d, of rv "[]" k] by (simp add: same split: option.splits)
  show ?thesis using r l by blast
qed


section \<open>Claims about change triage\<close>

lemma descending_split:
  assumes "sorted (rev (map key (xs @ ys)))" and "a \<in> set xs" and "b \<in> set ys"
  shows "key b \<le> key a"
  using assms by (auto simp add: sorted_append)

text \<open>
  Claim C1. For a change map (a dictionary, so its keys are distinct) and any analyzer,
  every input file name occurs exactly once in the four buckets \<open>filtered_changes\<close>,
  \<open>excluded_files\<close>, \<open>binary_files\<close> and \<open>large_files\<close> taken together, and no other
  name occurs there; the number of filtered changes is at most \<open>max_files\<close> (the
  configuration schema requires \<open>max_files \<ge> 1\<close>; the bound needs \<open>max_files \<ge> 0\<close>);
  and the empty input gives four empty buckets.
\<close>

theorem triage_partition:
  assumes "distinct (map fst changes)"
  shows "(\<forall>f. count_list (map fst (filtered_changes (analyze_changes self changes))
                        @ excluded_files (analyze_changes self changes)
                        @ binary_files (analyze_changes self changes)
                        @ large_files (analyze_changes self changes)) f
              = (if f \<in> fst ` set changes then 1 else 0))
       \<and> (0 \<le> max_files self \<longrightarrow>
            int (length (filtered_changes (analyze_changes self changes))) \<le> max_files self)
       \<and> filtered_changes (analyze_changes self []) = []
       \<and> excluded_files (analyze_changes self []) = []
       \<and> binary_files (analyze_changes self []) = []
       \<and> large_files (analyze_changes self []) = []"
proof -
  let ?r = "analyze_changes self changes"
  let ?names = "map fst (filtered_changes ?r) @ excluded_files ?r @ binary_files ?r @ large_files ?r"
  have m: "mset ?names = mset (map fst changes)"
    by (rule analyze_changes_buckets [OF assms])
  have c: "count_list ?names f = (if f \<in> fst ` set changes then 1 else 0)" for f
  proof -
    have "count_list ?names f = count (mset ?names) f" by (simp only: count_mset)
    also have "\<dots> = count (mset (map fst changes)) f" by (simp only: m)
    also have "\<dots> = (if f \<in> fst ` set changes then 1 else 0)"
      using assms by (simp add: distinct_count_atmost_1)
    finally show ?thesis .
  qed
  have b: "0 \<le> max_files self \<Longrightarrow> int (length (filtered_changes ?r)) \<le> max_files self"
    by (rule analyze_changes_bounded [OF assms])
  show ?thesis using c b by (simp add: analyze_changes_empty triage_init_def)
qed

theorem triage_partition_witness:
  "distinct (map fst sample_changes)
   \<and> ''c.py'' \<in> fst ` set sample_changes
   \<and> count_list (map fst (filtered_changes (analyze_changes sample_analyzer sample_changes))
                  @ excluded_files (analyze_changes sample_analyzer sample_changes)
                  @ binary_files (analyze_changes sample_analyzer sample_changes)
                  @ large_files (analyze_changes sample_analyzer sample_changes)) ''c.py'' = 1
   \<and> 0 \<le> max_files sample_analyzer
   \<and> int (length (filtered_changes (analyze_changes sample_analyzer sample_changes)))
        \<le> max_files sample_analyzer"
proof -
  have h1: "distinct (map fst sample_changes)"
    by (simp add: sample_changes_def change_def)
  have h2: "''c.py'' \<in> fst ` set sample_changes"
    by (simp add: sample_changes_def change_def)
  have h3: "0 \<le> max_files sample_analyzer"
    by (simp add: sample_analyzer_def)
  show ?thesis
    using h1 h2 h3 triage_partition [OF h1, of sample_analyzer] by simp
qed

text \<open>
  Claim C9. When more files pass the filters than \<open>max_files\<close> allows, the totals of
  added and removed lines in the result are the sums over all files that passed the
  filters: they equal the sum over the files that stay in \<open>filtered_changes\<close> plus the
  sum over the files that the cap moved to \<open>excluded_files\<close>.
\<close>

theorem cap_keeps_totals:
  assumes "distinct (map fst changes)"
    and "int (length (filter (survives self) changes)) > max_files self"
  shows "total_lines_added (analyze_changes self changes)
           = sum_list (map (\<lambda>x. lines_added (snd x)) (filter (survives self) changes))
       \<and> total_lines_removed (analyze_changes self changes)
           = sum_list (map (\<lambda>x. lines_removed (snd x)) (filter (survives self) changes))
       \<and> (\<exists>moved.
             excluded_files (analyze_changes self changes)
               = excluded_files (triage_loop self triage_init changes) @ map fst moved
           \<and> mset (filtered_changes (analyze_changes self changes) @ moved)
               = mset (filter (survives self) changes)
           \<and> total_lines_added (analyze_changes self changes)
               = sum_list (map (\<lambda>x. lines_added (snd x)) (filtered_changes (analyze_changes self changes)))
                 + sum_list (map (\<lambda>x. lines_added (snd x)) moved)
           \<and> total_lines_removed (analyze_changes self changes)
               = sum_list (map (\<lambda>x. lines_removed (snd x)) (filtered_changes (analyze_changes self changes)))
                 + sum_list (map (\<lambda>x. lines_removed (snd x)) moved))"
proof -
  let ?st = "triage_loop self triage_init changes"
  let ?surv = "filter (survives self) changes"
  let ?sorted = "sorted_reverse change_size ?surv"
  let ?kept = "py_slice_to (max_files self) ?sorted"
  let ?moved = "py_slice_from (max_files self) ?sorted"
  let ?r = "analyze_changes self changes"
  have f: "filtered_changes ?st = ?surv"
    by (rule triage_loop_init_filtered [OF assms(1)])
  have d: "distinct (map fst ?kept)"
    by (intro distinct_keys_slice_to distinct_keys_sorted_reverse distinct_keys_filter assms)
  have r: "?r = ?st\<lparr>filtered_changes := ?kept,
                     excluded_files := excluded_files ?st @ map fst ?moved,
                     file_count := length ?kept\<rparr>"
    using assms(2) by (simp add: analyze_changes_def Let_def f dict_of_distinct [OF d])
  have ta: "total_lines_added ?r = sum_list (map (\<lambda>x. lines_added (snd x)) ?surv)"
    using triage_loop_total_added [of self triage_init changes]
    by (simp add: r triage_init_def)
  have tr: "total_lines_removed ?r = sum_list (map (\<lambda>x. lines_removed (snd x)) ?surv)"
    using triage_loop_total_removed [of self triage_init changes]
    by (simp add: r triage_init_def)
  have ms: "mset (?kept @ ?moved) = mset ?surv"
    by (simp only: py_slice_split mset_sorted_reverse)
  have sa: "sum_list (map g ?surv) = sum_list (map g ?kept) + sum_list (map g ?moved)"
    for g :: "string \<times> FileChange \<Rightarrow> int"
  proof -
    have "sum_list (map g ?surv) = sum_mset (image_mset g (mset ?surv))"
      by (simp add: sum_mset_sum_list [symmetric])
    also have "\<dots> = sum_mset (image_mset g (mset (?kept @ ?moved)))"
      by (simp only: ms)
    also have "\<dots> = sum_list (map g ?kept) + sum_list (map g ?moved)"
      by (simp add: sum_mset_sum_list [symmetric])
    finally show ?thesis .
  qed
  have fr: "filtered_changes ?r = ?kept" and er: "excluded_files ?r = excluded_files ?st @ map fst ?moved"
    by (simp_all add: r)
  have "excluded_files ?r = excluded_files ?st @ map fst ?moved
      \<and> mset (filtered_changes ?r @ ?moved) = mset ?surv
      \<and> total_lines_added ?r = sum_list (map (\<lambda>x. lines_added (snd x)) (filtered_changes ?r))
                 + sum_list (map (\<lambda>x. lines_added (snd x)) ?moved)
      \<and> total_lines_removed ?r = sum_list (map (\<lambda>x. lines_removed (snd x)) (filtered_changes ?r))
                 + sum_list (map (\<lambda>x. lines_removed (snd x)) ?moved)"
    using er ms ta tr sa by (simp only: fr)
  then show ?thesis using ta tr by blast
qed

theorem cap_keeps_totals_witness:
  "distinct (map fst sample_changes)
   \<and> int (length (filter (survives sample_analyzer) sample_changes)) > max_files sample_analyzer
   \<and> total_lines_added (analyze_changes sample_analyzer sample_changes)
        = sum_list (map (\<lambda>x. lines_added (snd x)) (filter (survives sample_analyzer) sample_changes))
   \<and> total_lines_removed (analyze_changes sample_analyzer sample_changes)
        = sum_list (map (\<lambda>x. lines_removed (snd x)) (filter (survives sample_analyzer) sample_changes))
   \<and> total_lines_added (analyze_changes sample_analyzer sample_changes) = 15
   \<and> sum_list (map (\<lambda>x. lines_added (snd x))
                (filtered_changes (analyze_changes sample_analyzer sample_changes))) = 13"
proof -
  have h1: "distinct (map fst sample_changes)"
    by (simp add: sample_changes_def change_def)
  have h2: "int (length (filter (survives sample_analyzer) sample_changes)) > max_files sample_analyzer"
    by code_simp
  have v: "total_lines_added (analyze_changes sample_analyzer sample_changes) = 15
         \<and> sum_list (map (\<lambda>x. lines_added (snd x))
                (filtered_changes (analyze_changes sample_analyzer sample_changes))) = 13"
    by code_simp
  show ?thesis
    using h1 h2 v cap_keeps_totals [OF h1 h2] by simp
qed


text \<open>
  Claim C2. When \<open>M\<close> files pass the filters and \<open>M > max_files = N\<close> (with \<open>N \<ge> 0\<close>,
  as the configuration schema requires), the result keeps exactly \<open>N\<close> of them and
  appends the names of the other \<open>M - N\<close> to \<open>excluded_files\<close>. No moved file has more
  changed lines than a kept one, and among the files with the same number of changed
  lines the kept ones come first in the original order, followed by the moved ones.
\<close>

theorem cap_keeps_largest:
  assumes "distinct (map fst changes)"
    and "0 \<le> max_files self"
    and "int (length (filter (survives self) changes)) > max_files self"
  shows "length (filtered_changes (analyze_changes self changes)) = nat (max_files self)
       \<and> file_count (analyze_changes self changes) = nat (max_files self)
       \<and> (\<exists>moved.
             excluded_files (analyze_changes self changes)
               = excluded_files (triage_loop self triage_init changes) @ map fst moved
           \<and> length moved = length (filter (survives self) changes) - nat (max_files self)
           \<and> mset (filtered_changes (analyze_changes self changes) @ moved)
               = mset (filter (survives self) changes)
           \<and> (\<forall>a \<in> set (filtered_changes (analyze_changes self changes)). \<forall>b \<in> set moved.
                 change_size b \<le> change_size a)
           \<and> (\<forall>k. filter (\<lambda>x. change_size x = k) (filter (survives self) changes)
                   = filter (\<lambda>x. change_size x = k) (filtered_changes (analyze_changes self changes))
                     @ filter (\<lambda>x. change_size x = k) moved))"
proof -
  let ?st = "triage_loop self triage_init changes"
  let ?surv = "filter (survives self) changes"
  let ?sorted = "sorted_reverse change_size ?surv"
  let ?n = "nat (max_files self)"
  let ?kept = "take ?n ?sorted"
  let ?moved = "drop ?n ?sorted"
  let ?r = "analyze_changes self changes"
  have f: "filtered_changes ?st = ?surv"
    by (rule triage_loop_init_filtered [OF assms(1)])
  have sl: "py_slice_to (max_files self) ?sorted = ?kept"
           "py_slice_from (max_files self) ?sorted = ?moved"
    using py_slice_nonneg [OF assms(2), of ?sorted] by simp_all
  have d: "distinct (map fst (py_slice_to (max_files self) ?sorted))"
    by (intro distinct_keys_slice_to distinct_keys_sorted_reverse distinct_keys_filter assms)
  have r: "?r = ?st\<lparr>filtered_changes := ?kept,
                     excluded_files := excluded_files ?st @ map fst ?moved,
                     file_count := length ?kept\<rparr>"
    using assms(3) dict_of_distinct [OF d] by (simp add: analyze_changes_def Let_def f sl)
  have fr: "filtered_changes ?r = ?kept"
    and er: "excluded_files ?r = excluded_files ?st @ map fst ?moved"
    and cr: "file_count ?r = length ?kept"
    by (simp_all add: r)
  have lk: "length ?kept = ?n"
    using assms(2,3) by (simp add: length_sorted_reverse)
  have lm: "length ?moved = length ?surv - ?n"
    by (simp add: length_sorted_reverse)
  have ms: "mset (?kept @ ?moved) = mset ?surv"
    by (simp add: mset_sorted_reverse)
  have desc: "sorted (rev (map change_size (?kept @ ?moved)))"
    using sorted_reverse_descending [of change_size ?surv] by simp
  have ord: "\<forall>a \<in> set ?kept. \<forall>b \<in> set ?moved. change_size b \<le> change_size a"
    using descending_split [OF desc] by blast
  have ties: "filter (\<lambda>x. change_size x = k) ?surv
                = filter (\<lambda>x. change_size x = k) ?kept @ filter (\<lambda>x. change_size x = k) ?moved" for k
  proof -
    have a: "filter (\<lambda>x. change_size x = k) ?sorted = filter (\<lambda>x. change_size x = k) ?surv"
      by (rule sorted_reverse_stable)
    have b: "filter (\<lambda>x. change_size x = k) ?sorted
               = filter (\<lambda>x. change_size x = k) ?kept @ filter (\<lambda>x. change_size x = k) ?moved"
      by (simp only: filter_append [symmetric] append_take_drop_id)
    show ?thesis using a b by (simp only:)
  qed
  have "excluded_files ?r = excluded_files ?st @ map fst ?moved
      \<and> length ?moved = length ?surv - ?n
      \<and> mset (filtered_changes ?r @ ?moved) = mset ?surv
      \<and> (\<forall>a \<in> set (filtered_changes ?r). \<forall>b \<in> set ?moved. change_size b \<le> change_size a)
      \<and> (\<forall>k. filter (\<lambda>x. change_size x = k) ?surv
              = filter (\<lambda>x. change_size x = k) (filtered_changes ?r)
                @ filter (\<lambda>x. change_size x = k) ?moved)"
    unfolding fr by (intro conjI allI er lm ms ord ties)
  then have "\<exists>moved. excluded_files ?r = excluded_files ?st @ map fst moved
      \<and> length moved = length ?surv - ?n
      \<and> mset (filtered_changes ?r @ moved) = mset ?surv
      \<and> (\<forall>a \<in> set (filtered_changes ?r). \<forall>b \<in> set moved. change_size b \<le> change_size a)
      \<and> (\<forall>k. filter (\<lambda>x. change_size x = k) ?surv
              = filter (\<lambda>x. change_size x = k) (filtered_changes ?r)
                @ filter (\<lambda>x. change_size x = k) moved)"
    by (rule exI)
  then show ?thesis using lk by (simp only: fr cr)
qed

theorem cap_keeps_largest_witness:
  "distinct (map fst sample_changes)
   \<and> 0 \<le> max_files sample_analyzer
   \<and> int (length (filter (survives sample_analyzer) sample_changes)) > max_files sample_analyzer
   \<and> length (filtered_changes (analyze_changes sample_analyzer sample_changes))
        = nat (max_files sample_analyzer)
   \<and> file_count (analyze_changes sample_analyzer sample_changes) = nat (max_files sample_analyzer)
   \<and> map fst (filtered_changes (analyze_changes sample_analyzer sample_changes)) = [''b.py'', ''a.py'']
   \<and> excluded_files (analyze_changes sample_analyzer sample_changes) = [''LICENSE'', ''c.py'']"
proof -
  have h1: "distinct (map fst sample_changes)"
    by (simp add: sample_changes_def change_def)
  have h2: "0 \<le> max_files sample_analyzer"
    by (simp add: sample_analyzer_def)
  have h3: "int (length (filter (survives sample_analyzer) sample_changes)) > max_files sample_analyzer"
    by code_simp
  have v: "map fst (filtered_changes (analyze_changes sample_analyzer sample_changes)) = [''b.py'', ''a.py'']
         \<and> excluded_files (analyze_changes sample_analyzer sample_changes) = [''LICENSE'', ''c.py'']"
    by code_simp
  show ?thesis
    using h1 h2 h3 v cap_keeps_largest [OF h1 h2 h3] by simp
qed


section \<open>Claims about parsing, aggregation and cost\<close>

text \<open>
  Claim C8. Severity coercion maps each of the four enumerated severities to itself
  and every other string to \<open>info\<close>, and applying it twice is the same as applying it
  once.
\<close>

theorem coerce_severity_idempotent:
  "coerce_severity ''error'' = ''error''
   \<and> coerce_severity ''warning'' = ''warning''
   \<and> coerce_severity ''info'' = ''info''
   \<and> coerce_severity ''suggestion'' = ''suggestion''
   \<and> (s \<notin> set severities \<longrightarrow> coerce_severity s = ''info'')
   \<and> coerce_severity (coerce_severity s) = coerce_severity s"
  by (simp add: coerce_severity_def severities_def)

theorem coerce_severity_idempotent_witness:
  "''fatal'' \<notin> set severities \<and> coerce_severity ''fatal'' = ''info''
   \<and> coerce_severity (coerce_severity ''fatal'') = coerce_severity ''fatal''"
proof -
  have h: "''fatal'' \<notin> set severities" by (simp add: severities_def)
  show ?thesis using h coerce_severity_idempotent [of "''fatal''"] by simp
qed

text \<open>
  Claim C7. When the answer parses to an object whose \<open>issues\<close> entry is a list, the
  issues of the result are the listed issues whose severity is at least the threshold
  in the order suggestion, info, warning, error, cut to the first \<open>max_issues_per_file\<close>
  of them in the order of the answer. With the threshold \<open>warning\<close> a suggestion is
  dropped and an error is kept. The configuration schema makes the threshold one of
  the four severities and \<open>max_issues_per_file\<close> at least 1.
\<close>

theorem threshold_filter_then_cap:
  assumes "severity_threshold self \<in> set severities"
    and "0 \<le> max_issues_per_file self"
    and "extract_json (content response) = Inr js" and "js \<noteq> []"
    and "json_loads self js = Inr parsed"
    and "map_of parsed ''issues'' = Some (JArray entries)"
  shows "issues (parse_review_response self fname response)
           = take (nat (max_issues_per_file self))
               (filter (\<lambda>i. severity_rank (severity_threshold self) \<le> severity_rank (severity i))
                  (listed_issues fname entries))
       \<and> (\<forall>i \<in> set (listed_issues fname entries).
             meets_severity_threshold self (severity i)
               \<longleftrightarrow> severity_rank (severity_threshold self) \<le> severity_rank (severity i))
       \<and> (severity_threshold self = ''warning'' \<longrightarrow>
             \<not> meets_severity_threshold self ''suggestion'' \<and> meets_severity_threshold self ''error'')"
proof -
  have iff: "meets_severity_threshold self (severity i)
               \<longleftrightarrow> severity_rank (severity_threshold self) \<le> severity_rank (severity i)"
    if "i \<in> set (listed_issues fname entries)" for i
    using meets_severity_threshold_rank [OF assms(1) listed_issues_valid [OF that]] .
  have found: "parse_issues self fname entries []
                 = filter (\<lambda>i. severity_rank (severity_threshold self) \<le> severity_rank (severity i))
                     (listed_issues fname entries)"
    using iff by (simp add: parse_issues_filter cong: filter_cong)
  have kept: "issues (parse_review_response self fname response)
                = take (nat (max_issues_per_file self)) (parse_issues self fname entries [])"
    by (simp only: parse_review_response_listed [OF assms(3-6)] cap_is_take [OF assms(2)])
  have ex: "severity_threshold self = ''warning'' \<longrightarrow>
             \<not> meets_severity_threshold self ''suggestion'' \<and> meets_severity_threshold self ''error''"
    by (simp add: meets_severity_threshold_def severity_levels_def dict_get_def)
  show ?thesis using iff kept ex by (simp only: found) blast
qed

theorem threshold_filter_then_cap_witness:
  "severity_threshold sample_engine \<in> set severities
   \<and> 0 \<le> max_issues_per_file sample_engine
   \<and> extract_json (content sample_response) = Inr ''{}''
   \<and> json_loads sample_engine ''{}''
        = Inr [(''issues'',
                  JArray [JObject [(''rule'', JString ''style''), (''severity'', JString ''suggestion'')],
                          JObject [(''rule'', JString ''security''), (''severity'', JString ''error'')]]),
               (''summary'', JString ''two findings'')]
   \<and> issues (parse_review_response sample_engine ''a.py'' sample_response)
        = take (nat (max_issues_per_file sample_engine))
            (filter (\<lambda>i. severity_rank (severity_threshold sample_engine) \<le> severity_rank (severity i))
               (listed_issues ''a.py''
                  [JObject [(''rule'', JString ''style''), (''severity'', JString ''suggestion'')],
                   JObject [(''rule'', JString ''security''), (''severity'', JString ''error'')]]))
   \<and> map severity (issues (parse_review_response sample_engine ''a.py'' sample_response)) = [''error'']
   \<and> severity_threshold sample_engine = ''warning''
   \<and> \<not> meets_severity_threshold sample_engine ''suggestion''
   \<and> meets_severity_threshold sample_engine ''error''"
proof -
  let ?entries = "[JObject [(''rule'', JString ''style''), (''severity'', JString ''suggestion'')],
                   JObject [(''rule'', JString ''security''), (''severity'', JString ''error'')]]"
  let ?parsed = "[(''issues'', JArray ?entries), (''summary'', JString ''two findings'')]"
  have h1: "severity_threshold sample_engine \<in> set severities"
    by (simp add: sample_engine_def severities_def)
  have h2: "0 \<le> max_issues_per_file sample_engine"
    by (simp add: sample_engine_def)
  have h3: "extract_json (content sample_response) = Inr ''{}''"
    by code_simp
  have h4: "''{}'' \<noteq> []" by simp
  have h5: "json_loads sample_engine ''{}'' = Inr ?parsed"
    by (simp add: sample_engine_def)
  have h6: "map_of ?parsed ''issues'' = Some (JArray ?entries)"
    by simp
  have h7: "severity_threshold sample_engine = ''warning''"
    by (simp add: sample_engine_def)
  have v: "map severity (issues (parse_review_response sample_engine ''a.py'' sample_response)) = [''error'']"
    by code_simp
  show ?thesis
    using h1 h2 h3 h5 h7 v threshold_filter_then_cap [OF h1 h2 h3 h4 h5 h6, of "''a.py''"]
    by simp
qed






section \<open>Claim about the retry policy\<close>

text \<open>
  Claim C6. With \<open>retry_attempts \<ge> 0\<close> and \<open>retry_delay \<ge> 0\<close> (the configuration schema
  requires both): when every call fails with a \<open>BedrockError\<close>, \<open>invoke_model\<close> makes
  \<open>retry_attempts + 1\<close> calls, sleeps \<open>retry_delay * 2 ^ attempt\<close> before each of the
  \<open>retry_attempts\<close> retries, and raises the error of the last call; and when a call
  fails with a \<open>BotoCoreError\<close> after earlier calls failed with \<open>BedrockError\<close>, the
  \<open>NetworkError\<close> made from it is raised at once, with no further call and no further
  sleep.
\<close>

theorem retry_policy:
  assumes "0 \<le> retry_attempts self" and "0 \<le> retry_delay self"
  shows "((\<forall>k \<le> nat (retry_attempts self). \<exists>m. invoke_model_once (world k) = Inl (BedrockError m)) \<longrightarrow>
           invoke_model self world
             = \<lparr>outcome = invoke_model_once (world (nat (retry_attempts self))),
                sleeps = map (\<lambda>k. retry_delay self * 2 ^ k) [0 ..< nat (retry_attempts self)],
                calls = nat (retry_attempts self) + 1\<rparr>)
       \<and> (\<forall>k t. k \<le> nat (retry_attempts self)
             \<and> (\<forall>j < k. \<exists>m. invoke_model_once (world j) = Inl (BedrockError m))
             \<and> world k = RaisedBotoCoreError t \<longrightarrow>
           invoke_model self world
             = \<lparr>outcome = Inl (NetworkError (''Network error: Network error calling Bedrock: '' @ t)),
                sleeps = map (\<lambda>i. retry_delay self * 2 ^ i) [0 ..< k],
                calls = k + 1\<rparr>)"
  using invoke_model_exhausted [OF assms] invoke_model_network [OF assms] by blast

theorem retry_policy_witness:
  "0 \<le> retry_attempts sample_client \<and> 0 \<le> retry_delay sample_client
   \<and> invoke_model_once (throttling_service 0)
        = Inl (BedrockError ''AWS Bedrock error: Rate limit exceeded: slow down (ThrottlingException)'')
   \<and> invoke_model_once (throttling_service 1)
        = Inl (BedrockError ''AWS Bedrock error: Rate limit exceeded: slow down (ThrottlingException)'')
   \<and> invoke_model_once (throttling_service 2)
        = Inl (BedrockError ''AWS Bedrock error: Rate limit exceeded: slow down (ThrottlingException)'')
   \<and> invoke_model sample_client throttling_service
        = \<lparr>outcome = invoke_model_once (throttling_service (nat (retry_attempts sample_client))),
           sleeps = map (\<lambda>k. retry_delay sample_client * 2 ^ k) [0 ..< nat (retry_attempts sample_client)],
           calls = nat (retry_attempts sample_client) + 1\<rparr>
   \<and> invoke_model sample_client throttling_service
        = \<lparr>outcome = Inl (BedrockError
              ''AWS Bedrock error: Rate limit exceeded: slow down (ThrottlingException)''),
           sleeps = [1, 2], calls = 3\<rparr>
   \<and> 1 \<le> nat (retry_attempts sample_client)
   \<and> invoke_model_once (failing_network 0)
        = Inl (BedrockError ''AWS Bedrock error: Rate limit exceeded: slow down (ThrottlingException)'')
   \<and> failing_network 1 = RaisedBotoCoreError ''connection reset''
   \<and> invoke_model sample_client failing_network
        = \<lparr>outcome = Inl (NetworkError
              (''Network error: Network error calling Bedrock: '' @ ''connection reset'')),
           sleeps = map (\<lambda>i. retry_delay sample_client * 2 ^ i) [0 ..< 1], calls = 1 + 1\<rparr>
   \<and> invoke_model sample_client failing_network
        = \<lparr>outcome = Inl (NetworkError
              ''Network error: Network error calling Bedrock: connection reset''),
           sleeps = [1], calls = 2\<rparr>"
proof -
  have h1: "0 \<le> retry_attempts sample_client" and h2: "0 \<le> retry_delay sample_client"
    by (simp_all add: sample_client_def)
  have t: "invoke_model_once (throttling_service k)
             = Inl (BedrockError ''AWS Bedrock error: Rate limit exceeded: slow down (ThrottlingException)'')"
    for k
    by (simp add: throttling_service_def invoke_model_once_def new_BedrockError_def)
  have h3: "\<forall>k \<le> nat (retry_attempts sample_client).
              \<exists>m. invoke_model_once (throttling_service k) = Inl (BedrockError m)"
    using t by blast
  have h4: "1 \<le> nat (retry_attempts sample_client)"
    by (simp add: sample_client_def)
  have h5: "\<forall>j < 1. \<exists>m. invoke_model_once (failing_network j) = Inl (BedrockError m)"
    using t by (simp add: failing_network_def)
  have h6: "failing_network 1 = RaisedBotoCoreError ''connection reset''"
    by (simp add: failing_network_def)
  have v: "invoke_model sample_client throttling_service
        = \<lparr>outcome = Inl (BedrockError
              ''AWS Bedrock error: Rate limit exceeded: slow down (ThrottlingException)''),
           sleeps = [1, 2], calls = 3\<rparr>"
    by code_simp
  have a: "invoke_model sample_client throttling_service
        = \<lparr>outcome = invoke_model_once (throttling_service (nat (retry_attempts sample_client))),
           sleeps = map (\<lambda>k. retry_delay sample_client * 2 ^ k) [0 ..< nat (retry_attempts sample_client)],
           calls = nat (retry_attempts sample_client) + 1\<rparr>"
    using retry_policy [OF h1 h2, of throttling_service] h3 by blast
  have b: "invoke_model sample_client failing_network
        = \<lparr>outcome = Inl (NetworkError
              (''Network error: Network error calling Bedrock: '' @ ''connection reset'')),
           sleeps = map (\<lambda>i. retry_delay sample_client * 2 ^ i) [0 ..< 1], calls = 1 + 1\<rparr>"
    using retry_policy [OF h1 h2, of failing_network] h4 h5 h6 by blast
  have w: "invoke_model sample_client failing_network
        = \<lparr>outcome = Inl (NetworkError
              ''Network error: Network error calling Bedrock: connection reset''),
           sleeps = [1], calls = 2\<rparr>"
    by code_simp
  have f0: "invoke_model_once (failing_network 0)
        = Inl (BedrockError ''AWS Bedrock error: Rate limit exceeded: slow down (ThrottlingException)'')"
    using t [of 0] by (simp add: failing_network_def throttling_service_def)
  show ?thesis
    by (intro conjI h1 h2 t a v h4 f0 h6 b w)
qed


section \<open>Claim about response validation\<close>

text \<open>
  Claim C5. Response validation hands to the JSON parser exactly the text from the
  first opening brace to the last closing brace of the answer: when no opening brace
  comes before the object and no closing brace after it, the text around it does not
  matter. The result is a per-file error result when the parser rejects that text,
  when the parsed object has no \<open>issues\<close> key, when the answer has no opening or no
  closing brace, and when its last closing brace comes before its first opening one;
  otherwise the issues, the summary and the token count come from the parsed object.
\<close>

theorem response_validation:
  "(CHR ''{'' \<notin> set before \<and> CHR ''}'' \<notin> set after
      \<and> content response = before @ CHR ''{'' # inner @ CHR ''}'' # after \<longrightarrow>
        extract_json (content response) = Inr (CHR ''{'' # inner @ [CHR ''}''])
      \<and> (\<forall>e. json_loads self (CHR ''{'' # inner @ [CHR ''}'']) = Inl e \<longrightarrow>
            parse_review_response self fname response
              = create_error_result fname (''Invalid JSON response: '' @ e))
      \<and> (\<forall>parsed. json_loads self (CHR ''{'' # inner @ [CHR ''}'']) = Inr parsed
              \<and> map_of parsed ''issues'' = None \<longrightarrow>
            parse_review_response self fname response
              = create_error_result fname
                  ''Invalid response format: Validation error: Response missing 'issues' field'')
      \<and> (\<forall>parsed entries. json_loads self (CHR ''{'' # inner @ [CHR ''}'']) = Inr parsed
              \<and> map_of parsed ''issues'' = Some (JArray entries) \<longrightarrow>
            issues (parse_review_response self fname response)
              = (if int (length (parse_issues self fname entries [])) > max_issues_per_file self
                 then py_slice_to (max_issues_per_file self) (parse_issues self fname entries [])
                 else parse_issues self fname entries [])
            \<and> fr_summary (parse_review_response self fname response)
                = dict_get parsed ''summary'' (JString ''No summary provided'')
            \<and> tokens_used (parse_review_response self fname response)
                = input_tokens response + output_tokens response))
   \<and> (CHR ''{'' \<notin> set (content response) \<or> CHR ''}'' \<notin> set (content response) \<longrightarrow>
        parse_review_response self fname response
          = create_error_result fname
              ''Invalid response format: Validation error: No JSON found in response'')
   \<and> (CHR ''{'' \<notin> set a \<and> CHR ''{'' \<notin> set b \<and> CHR ''}'' \<notin> set b \<and> CHR ''}'' \<notin> set c
      \<and> content response = a @ CHR ''}'' # b @ CHR ''{'' # c \<longrightarrow>
        parse_review_response self fname response
          = create_error_result fname
              ''Invalid JSON response: Expecting value: line 1 column 1 (char 0)'')"
proof (intro conjI impI)
  assume h: "CHR ''{'' \<notin> set before \<and> CHR ''}'' \<notin> set after
      \<and> content response = before @ CHR ''{'' # inner @ CHR ''}'' # after"
  let ?js = "CHR ''{'' # inner @ [CHR ''}'']"
  have x: "extract_json (content response) = Inr ?js"
    using h extract_json_between [of before "after" inner] by simp
  have ne: "?js \<noteq> []" by simp
  show "extract_json (content response) = Inr ?js" by (rule x)
  show "\<forall>e. json_loads self ?js = Inl e \<longrightarrow>
            parse_review_response self fname response
              = create_error_result fname (''Invalid JSON response: '' @ e)"
    by (simp add: parse_review_response_def new_ValidationError_def x)
  show "\<forall>parsed. json_loads self ?js = Inr parsed \<and> map_of parsed ''issues'' = None \<longrightarrow>
            parse_review_response self fname response
              = create_error_result fname
                  ''Invalid response format: Validation error: Response missing 'issues' field''"
    by (simp add: parse_review_response_def new_ValidationError_def x)
  show "\<forall>parsed entries. json_loads self ?js = Inr parsed
              \<and> map_of parsed ''issues'' = Some (JArray entries) \<longrightarrow>
            issues (parse_review_response self fname response)
              = (if int (length (parse_issues self fname entries [])) > max_issues_per_file self
                 then py_slice_to (max_issues_per_file self) (parse_issues self fname entries [])
                 else parse_issues self fname entries [])
            \<and> fr_summary (parse_review_response self fname response)
                = dict_get parsed ''summary'' (JString ''No summary provided'')
            \<and> tokens_used (parse_review_response self fname response)
                = input_tokens response + output_tokens response"
    by (simp add: parse_review_response_def new_ValidationError_def x iter_json_def Let_def)
next
  assume "CHR ''{'' \<notin> set (content response) \<or> CHR ''}'' \<notin> set (content response)"
  then have "extract_json (content response)
               = Inl (ValidationError ''Validation error: No JSON found in response'')"
    by (rule extract_json_none)
  then show "parse_review_response self fname response
          = create_error_result fname
              ''Invalid response format: Validation error: No JSON found in response''"
    by (simp add: parse_review_response_def new_ValidationError_def)
next
  assume h: "CHR ''{'' \<notin> set a \<and> CHR ''{'' \<notin> set b \<and> CHR ''}'' \<notin> set b \<and> CHR ''}'' \<notin> set c
      \<and> content response = a @ CHR ''}'' # b @ CHR ''{'' # c"
  have "extract_json (content response) = Inr []"
    using h extract_json_reversed [of a b c] by simp
  then show "parse_review_response self fname response
          = create_error_result fname
              ''Invalid JSON response: Expecting value: line 1 column 1 (char 0)''"
    by (simp add: parse_review_response_def new_ValidationError_def)
qed

theorem response_validation_witness:
  "CHR ''{'' \<notin> set ''Here is my review: '' \<and> CHR ''}'' \<notin> set '' Thanks.''
   \<and> content sample_response = ''Here is my review: '' @ CHR ''{'' # [] @ CHR ''}'' # '' Thanks.''
   \<and> extract_json (content sample_response) = Inr (CHR ''{'' # [] @ [CHR ''}''])
   \<and> json_loads rejecting_engine (CHR ''{'' # [] @ [CHR ''}'']) = Inl ''Expecting property name''
   \<and> parse_review_response rejecting_engine ''a.py'' sample_response
        = create_error_result ''a.py'' (''Invalid JSON response: '' @ ''Expecting property name'')
   \<and> json_loads summary_only_engine (CHR ''{'' # [] @ [CHR ''}'']) = Inr [(''summary'', JString ''fine'')]
   \<and> map_of [(''summary'', JString ''fine'')] ''issues'' = None
   \<and> parse_review_response summary_only_engine ''a.py'' sample_response
        = create_error_result ''a.py''
            ''Invalid response format: Validation error: Response missing 'issues' field''
   \<and> fr_summary (parse_review_response sample_engine ''a.py'' sample_response)
        = JString ''two findings''
   \<and> CHR ''{'' \<notin> set (content prose_response)
   \<and> parse_review_response sample_engine ''a.py'' prose_response
        = create_error_result ''a.py''
            ''Invalid response format: Validation error: No JSON found in response''"
proof -
  let ?entries = "[JObject [(''rule'', JString ''style''), (''severity'', JString ''suggestion'')],
                   JObject [(''rule'', JString ''security''), (''severity'', JString ''error'')]]"
  let ?parsed = "[(''issues'', JArray ?entries), (''summary'', JString ''two findings'')]"
  have h1: "CHR ''{'' \<notin> set ''Here is my review: ''" and h2: "CHR ''}'' \<notin> set '' Thanks.''"
    by simp_all
  have h3: "content sample_response = ''Here is my review: '' @ CHR ''{'' # [] @ CHR ''}'' # '' Thanks.''"
    by (simp add: sample_response_def)
  have h123: "CHR ''{'' \<notin> set ''Here is my review: '' \<and> CHR ''}'' \<notin> set '' Thanks.''
      \<and> content sample_response = ''Here is my review: '' @ CHR ''{'' # [] @ CHR ''}'' # '' Thanks.''"
    using h1 h2 h3 by blast
  have h4: "json_loads rejecting_engine (CHR ''{'' # [] @ [CHR ''}'']) = Inl ''Expecting property name''"
    by (simp add: rejecting_engine_def)
  have h5: "json_loads summary_only_engine (CHR ''{'' # [] @ [CHR ''}''])
              = Inr [(''summary'', JString ''fine'')]"
    by (simp add: summary_only_engine_def)
  have h6: "map_of [(''summary'', JString ''fine'')] ''issues'' = None"
    by simp
  have h7: "json_loads sample_engine (CHR ''{'' # [] @ [CHR ''}'']) = Inr ?parsed"
    by (simp add: sample_engine_def)
  have h8: "map_of ?parsed ''issues'' = Some (JArray ?entries)"
    by simp
  have h9: "CHR ''{'' \<notin> set (content prose_response)"
    by (simp add: prose_response_def)
  have s: "dict_get ?parsed ''summary'' (JString ''No summary provided'') = JString ''two findings''"
    by (simp add: dict_get_def)
  note r = response_validation [where before = "''Here is my review: ''" and after = "'' Thanks.''"
             and inner = "[]" and response = sample_response and self = rejecting_engine
             and fname = "''a.py''"]
  note m = response_validation [where before = "''Here is my review: ''" and after = "'' Thanks.''"
             and inner = "[]" and response = sample_response and self = summary_only_engine
             and fname = "''a.py''"]
  note g = response_validation [where before = "''Here is my review: ''" and after = "'' Thanks.''"
             and inner = "[]" and response = sample_response and self = sample_engine
             and fname = "''a.py''"]
  note n = response_validation [where response = prose_response and self = sample_engine
             and fname = "''a.py''"]
  have c1: "extract_json (content sample_response) = Inr (CHR ''{'' # [] @ [CHR ''}''])"
    using r h123 by blast
  have c2: "parse_review_response rejecting_engine ''a.py'' sample_response
        = create_error_result ''a.py'' (''Invalid JSON response: '' @ ''Expecting property name'')"
    using r h123 h4 by blast
  have c3: "parse_review_response summary_only_engine ''a.py'' sample_response
        = create_error_result ''a.py''
            ''Invalid response format: Validation error: Response missing 'issues' field''"
    using m h123 h5 h6 by blast
  have c4: "fr_summary (parse_review_response sample_engine ''a.py'' sample_response)
        = dict_get ?parsed ''summary'' (JString ''No summary provided'')"
    using g h123 h7 h8 by blast
  have c5: "parse_review_response sample_engine ''a.py'' prose_response
        = create_error_result ''a.py''
            ''Invalid response format: Validation error: No JSON found in response''"
    using n h9 by blast
  show ?thesis
    using c4 by (intro conjI h1 h2 h3 c1 h4 c2 h5 h6 c3 h9 c5) (simp only: s)
qed


section \<open>Claim about failure isolation\<close>

text \<open>
  Claim C4. When reviewing the file \<open>f\<close> raises an exception \<open>e\<close>, the error result
  made for \<open>f\<close> holds exactly one issue, with the rule \<open>system\<close>, the severity \<open>error\<close>
  and a message that ends with the text of \<open>e\<close>. In a batch (a dictionary) that
  contains \<open>f\<close>, the batch handler stores that result under \<open>f\<close>, every file of the
  batch gets a result, and the result of any file \<open>g\<close> is the same under every other
  behaviour of the reviews that agrees on \<open>g\<close>: in particular under one where no file
  fails. The same holds for the parallel run over all batches, for a positive batch
  size and whatever order the batches complete in.
\<close>

theorem failure_isolation:
  assumes "review_single_file f ch = Inl e"
  shows "issues (create_error_result f (str_exn e))
           = [\<lparr>rule = JString ''system'', severity = ''error'', line = JNull,
               message = JString (''Review failed: '' @ str_exn e), suggestion = JNull,
               file_path = Some f\<rparr>]
       \<and> (distinct (map fst batch) \<and> (f, ch) \<in> set batch \<longrightarrow>
            map_of (review_file_batch review_single_file batch) f
              = Some (create_error_result f (str_exn e))
          \<and> map fst (review_file_batch review_single_file batch) = map fst batch
          \<and> (\<forall>other g. (\<forall>c. other g c = review_single_file g c) \<longrightarrow>
                map_of (review_file_batch other batch) g
                  = map_of (review_file_batch review_single_file batch) g))
       \<and> (distinct (map fst changes) \<and> (f, ch) \<in> set changes \<and> 0 < batch_size self
            \<and> (\<forall>bs. mset (completed bs) = mset bs) \<longrightarrow>
            (\<exists>results.
               review_files_parallel self review_single_file completed changes = Inr results
             \<and> map_of results f = Some (create_error_result f (str_exn e))
             \<and> (\<forall>other g. (\<forall>c. other g c = review_single_file g c) \<longrightarrow>
                   (\<exists>results'.
                      review_files_parallel self other completed changes = Inr results'
                    \<and> map_of results' g = map_of results g))))"
proof (intro conjI impI)
  show "issues (create_error_result f (str_exn e))
           = [\<lparr>rule = JString ''system'', severity = ''error'', line = JNull,
               message = JString (''Review failed: '' @ str_exn e), suggestion = JNull,
               file_path = Some f\<rparr>]"
    by (simp add: create_error_result_def)
next
  assume h: "distinct (map fst batch) \<and> (f, ch) \<in> set batch"
  then have d: "distinct (map fst batch)" and m: "map_of batch f = Some ch"
    by simp_all
  show "map_of (review_file_batch review_single_file batch) f
              = Some (create_error_result f (str_exn e))"
    by (simp add: review_file_batch_lookup [OF d] m review_or_error_def assms)
  show "map fst (review_file_batch review_single_file batch) = map fst batch"
    by (rule review_file_batch_keys [OF d])
  show "\<forall>other g. (\<forall>c. other g c = review_single_file g c) \<longrightarrow>
                map_of (review_file_batch other batch) g
                  = map_of (review_file_batch review_single_file batch) g"
    by (simp add: review_file_batch_lookup [OF d] review_or_error_def cong: option.map_cong)
next
  assume h: "distinct (map fst changes) \<and> (f, ch) \<in> set changes \<and> 0 < batch_size self
            \<and> (\<forall>bs. mset (completed bs) = mset bs)"
  then have d: "distinct (map fst changes)" and m: "map_of changes f = Some ch"
    and b: "0 < batch_size self" and p: "\<forall>bs. mset (completed bs) = mset bs"
    by simp_all
  obtain results where r: "review_files_parallel self review_single_file completed changes = Inr results"
    and l: "\<And>k. map_of results k = map_option (review_or_error review_single_file k) (map_of changes k)"
    using review_files_parallel_lookup [OF d b p, of review_single_file] by blast
  have at_f: "map_of results f = Some (create_error_result f (str_exn e))"
    by (simp add: l m review_or_error_def assms)
  have iso: "\<exists>results'. review_files_parallel self other completed changes = Inr results'
                    \<and> map_of results' g = map_of results g"
    if same: "\<forall>c. other g c = review_single_file g c" for other g
  proof -
    obtain results' where r': "review_files_parallel self other completed changes = Inr results'"
      and l': "\<And>k. map_of results' k = map_option (review_or_error other k) (map_of changes k)"
      using review_files_parallel_lookup [OF d b p, of other] by blast
    have "map_of results' g = map_of results g"
      using same by (simp add: l l' review_or_error_def cong: option.map_cong)
    then show ?thesis using r' by blast
  qed
  show "\<exists>results.
               review_files_parallel self review_single_file completed changes = Inr results
             \<and> map_of results f = Some (create_error_result f (str_exn e))
             \<and> (\<forall>other g. (\<forall>c. other g c = review_single_file g c) \<longrightarrow>
                   (\<exists>results'.
                      review_files_parallel self other completed changes = Inr results'
                    \<and> map_of results' g = map_of results g))"
    using r at_f iso by blast
qed

theorem failure_isolation_witness:
  "failing_review ''b.py'' (snd (change ''b.py'' 10 2)) = Inl (NetworkError ''Network error: connection reset'')
   \<and> distinct (map fst sample_changes)
   \<and> (''b.py'', snd (change ''b.py'' 10 2)) \<in> set sample_changes
   \<and> map_of (review_file_batch failing_review sample_changes) ''b.py''
        = Some (create_error_result ''b.py'' (str_exn (NetworkError ''Network error: connection reset'')))
   \<and> (\<forall>c. healthy_review ''a.py'' c = failing_review ''a.py'' c)
   \<and> map_of (review_file_batch healthy_review sample_changes) ''a.py''
        = map_of (review_file_batch failing_review sample_changes) ''a.py''
   \<and> 0 < batch_size sample_engine
   \<and> (\<forall>bs :: (string \<times> FileChange) list list. mset (rev bs) = mset bs)
   \<and> (\<exists>results. review_files_parallel sample_engine failing_review rev sample_changes = Inr results
         \<and> map_of results ''b.py''
             = Some (create_error_result ''b.py'' (str_exn (NetworkError ''Network error: connection reset''))))
   \<and> map rule (issues (the (map_of (review_file_batch failing_review sample_changes) ''b.py'')))
        = [JString ''system'']"
proof -
  let ?ch = "snd (change ''b.py'' 10 2)"
  let ?e = "NetworkError ''Network error: connection reset''"
  have h1: "failing_review ''b.py'' ?ch = Inl ?e"
    by (simp add: failing_review_def new_NetworkError_def)
  have h2: "distinct (map fst sample_changes)"
    by (simp add: sample_changes_def change_def)
  have h3: "(''b.py'', ?ch) \<in> set sample_changes"
    by (simp add: sample_changes_def change_def)
  have h4: "\<forall>c. healthy_review ''a.py'' c = failing_review ''a.py'' c"
    by (simp add: failing_review_def)
  have h5: "0 < batch_size sample_engine"
    by (simp add: sample_engine_def)
  have h6: "\<forall>bs :: (string \<times> FileChange) list list. mset (rev bs) = mset bs"
    by simp
  note t = failure_isolation [where review_single_file = failing_review and f = "''b.py''"
             and ch = ?ch and e = ?e and batch = sample_changes and changes = sample_changes
             and self = sample_engine and completed = rev, OF h1]
  have c1: "map_of (review_file_batch failing_review sample_changes) ''b.py''
        = Some (create_error_result ''b.py'' (str_exn ?e))"
    using t h2 h3 by blast
  have c2: "map_of (review_file_batch healthy_review sample_changes) ''a.py''
        = map_of (review_file_batch failing_review sample_changes) ''a.py''"
    using t h2 h3 h4 by blast
  have c3: "\<exists>results. review_files_parallel sample_engine failing_review rev sample_changes = Inr results
         \<and> map_of results ''b.py'' = Some (create_error_result ''b.py'' (str_exn ?e))"
    using t h2 h3 h5 h6 by blast
  have c4: "map rule (issues (the (map_of (review_file_batch failing_review sample_changes) ''b.py'')))
        = [JString ''system'']"
    by (simp add: c1 create_error_result_def)
  show ?thesis
    by (intro conjI h1 h2 h3 c1 h4 c2 h5 h6 c3 c4)
qed

end
